theory Spec2Isabelle
  imports Complex_Main
begin

section \<open>The collage generator of script.js\<close>

text \<open>
  A shallow embedding of the batched collage engine of \<^verbatim>\<open>src/script.js\<close>:
  \<^verbatim>\<open>generate\<close>, \<^verbatim>\<open>drawNumber\<close>, \<^verbatim>\<open>getAspectRatio\<close>, \<^verbatim>\<open>cancelProcess\<close>,
  \<^verbatim>\<open>removeDuplicates\<close> and the parts of the \<^verbatim>\<open>DB\<close> module they use.

  JavaScript numbers are modelled as rationals. The integers of the code (counts, pixel
  sizes, indices) are exact, as they are in double precision below \<open>2 ^ 53\<close>. The
  aspect ratio and the quotient from which the cell height is floored are rounded as
  double precision rounds them (\<open>round_double\<close> below); the coordinates at which a
  decoded image is drawn are exact rationals. The DOM controls are read into a \<open>config\<close> value
  that stays fixed during one run, and the image sequence is not edited while a run is
  suspended; the one external event that can happen while \<^verbatim>\<open>generate\<close> is suspended at
  an \<^verbatim>\<open>await\<close> is a call of \<^verbatim>\<open>cancelProcess\<close>.
\<close>

subsection \<open>Data\<close>

text \<open>An entry of \<^verbatim>\<open>state.images\<close>. The object URL is identified with the blob it names.\<close>

record image =
  img_id :: nat
  img_name :: string
  img_url :: nat

text \<open>A record of the IndexedDB object store \<^verbatim>\<open>images\<close> (key path \<^verbatim>\<open>id\<close>).\<close>

record db_record =
  rec_id :: nat
  rec_name :: string
  rec_blob :: nat

datatype rect = Rect (r_x: rat) (r_y: rat) (r_w: rat) (r_h: rat)

text \<open>
  What one iteration of the drawing loop leaves in a cell: either the decoded image,
  drawn with \<^verbatim>\<open>drawImage\<close> under a clip path (the clip rectangle, the natural size of
  the image, the destination rectangle of \<^verbatim>\<open>drawImage\<close>), or the placeholder of the
  \<^verbatim>\<open>catch\<close> branch (the rectangle filled with \<^verbatim>\<open>#eee\<close> and the position of the
  red cross glyph). The destination is \<open>None\<close> where the JavaScript arithmetic leaves
  the finite numbers (a ratio with denominator zero).
\<close>

datatype tile_content =
    Drawn rect nat nat "rect option"
  | Placeholder rect rat rat

record tile =
  t_src :: image
  t_x :: int
  t_y :: int
  t_content :: tile_content
  t_label :: "int option"

text \<open>
  The canvas: its two dimensions and what has been drawn since they were last set
  (the white background, the tiles in drawing order, the overlay image).
\<close>

record surface =
  width :: int
  height :: int
  background :: bool
  tiles :: "tile list"
  overlay :: "nat option"

datatype mime = ImagePng | ImageJpeg

text \<open>The result of \<^verbatim>\<open>canvas.toBlob\<close>: the format, the quality in percent, the page.\<close>

record blob =
  b_type :: mime
  b_quality :: int
  b_page :: surface

datatype exn = CancelledError | TypeError

datatype alert = AlertNoImages | AlertGenerateFailed exn

datatype log_entry = DecodeFailed nat nat | RunError exn

text \<open>
  The module's \<^verbatim>\<open>state\<close> object together with the DOM elements \<^verbatim>\<open>generate\<close> writes:
  the canvas, the progress toast, the result area with its preview container, the
  alerts shown and the lines written with \<^verbatim>\<open>console.error\<close>. An entry of
  \<open>generatedBlobs\<close> is \<open>None\<close> when \<^verbatim>\<open>toBlob\<close> handed \<^verbatim>\<open>null\<close> to its callback.
\<close>

record app_state =
  images :: "image list"
  generatedBlobs :: "blob option list"
  isCancelled :: bool
  overlayImg :: "nat option"
  canvas :: surface
  toastVisible :: bool
  resultHidden :: bool
  previews :: "blob list"
  alerts :: "alert list"
  console :: "log_entry list"

text \<open>
  The DOM controls \<^verbatim>\<open>generate\<close> reads. A numeric field holds the result of
  \<^verbatim>\<open>parseInt\<close> on the control's text, \<open>None\<close> for \<^verbatim>\<open>NaN\<close>. The aspect-ratio select
  is either a preset (the value of \<^verbatim>\<open>parseFloat\<close>) or \<^verbatim>\<open>custom\<close> with the two
  custom fields.
\<close>

datatype aspect_input = Preset rat | Custom "int option" "int option"

record config =
  cols_input :: "int option"
  rows_input :: "int option"
  quality_input :: "int option"
  gap_input :: "int option"
  aspectRatio :: aspect_input
  showNum :: bool
  startNumber_input :: "int option"

text \<open>
  The places where \<^verbatim>\<open>generate\<close> is suspended: \<^verbatim>\<open>sleep(100)\<close> at the head of group
  \<open>b\<close>, \<^verbatim>\<open>sleep(20)\<close> before tile \<open>i\<close> of group \<open>b\<close>, \<^verbatim>\<open>img.decode()\<close> of tile
  \<open>i\<close> of group \<open>b\<close>, and the \<^verbatim>\<open>toBlob\<close> promise of group \<open>b\<close>.
\<close>

datatype await_point = GroupSleep nat | TileSleep nat nat | Decode nat nat | Encode nat

text \<open>
  The environment of one run: at which suspensions \<^verbatim>\<open>cancelProcess\<close> is called,
  what \<^verbatim>\<open>img.decode()\<close> of each tile gives (the natural width and height, or \<open>None\<close>
  when the promise is rejected), and whether \<^verbatim>\<open>toBlob\<close> of each group gives a blob.
\<close>

record env =
  cancel_during :: "await_point \<Rightarrow> bool"
  decode_result :: "nat \<Rightarrow> nat \<Rightarrow> (nat \<times> nat) option"
  encode_ok :: "nat \<Rightarrow> bool"

text \<open>The parameters \<^verbatim>\<open>generate\<close> computes once, before its loop.\<close>

record run_params =
  p_cols :: int
  p_rows :: int
  p_qVal :: int
  p_gap :: int
  p_batchSize :: int
  p_totalBatches :: int

record geometry =
  cellW :: int
  cellH :: int
  realRows :: int
  pageW :: int
  pageH :: int

datatype loop_exit = Exhausted | Broke | Threw exn

text \<open>
  The code keeps no status variable. The outcome names the way \<^verbatim>\<open>generate\<close> leaves:
  the early return, the end of the loop, the \<^verbatim>\<open>break\<close> or an exception thrown with the
  cancel flag set, an exception thrown without it (the one that raises the alert).
\<close>

datatype outcome = Rejected | Completed | Cancelled | Failed

subsection \<open>JavaScript helpers\<close>

definition MAX_CANVAS_DIM :: int where
  "MAX_CANVAS_DIM = 8192"

text \<open>\<^verbatim>\<open>parseInt(s) || d\<close>: the default replaces \<^verbatim>\<open>NaN\<close> and also \<^verbatim>\<open>0\<close>.\<close>

definition js_or :: "int option \<Rightarrow> int \<Rightarrow> int" where
  "js_or v d = (case v of None \<Rightarrow> d | Some n \<Rightarrow> if n = 0 then d else n)"

text \<open>\<^verbatim>\<open>a % b\<close> on integers: the remainder of the truncating division.\<close>

definition js_rem :: "int \<Rightarrow> int \<Rightarrow> int" where
  "js_rem a b = sgn a * (\<bar>a\<bar> mod \<bar>b\<bar>)"

text \<open>\<^verbatim>\<open>Array.prototype.slice(s, e)\<close>.\<close>

definition js_slice :: "'a list \<Rightarrow> int \<Rightarrow> int \<Rightarrow> 'a list" where
  "js_slice xs s e =
     (let n = int (length xs);
          k = (if s < 0 then max (n + s) 0 else min s n);
          f = (if e < 0 then max (n + e) 0 else min e n)
      in take (nat (f - k)) (drop (nat k) xs))"

text \<open>
  Double precision. \<open>round_double x\<close> is the double nearest to \<open>x\<close>: a significand
  of 53 bits, ties to the even significand. The exponent is not bounded, so overflow to
  \<^verbatim>\<open>Infinity\<close> and the subnormal numbers are outside the model. \<open>bits n\<close> is the
  number of binary digits of \<open>n\<close>, \<open>binade x\<close> is \<open>\<lfloor>log\<^sub>2 x\<rfloor>\<close> for positive
  \<open>x\<close>.
\<close>

fun bits :: "nat \<Rightarrow> nat" where
  "bits n = (if n = 0 then 0 else Suc (bits (n div 2)))"

definition binade :: "rat \<Rightarrow> int" where
  "binade x = (if 1 \<le> x then int (bits (nat \<lfloor>x\<rfloor>)) - 1
               else - int (bits (nat (\<lceil>1 / x\<rceil> - 1))))"

definition pow2 :: "int \<Rightarrow> rat" where
  "pow2 k = (if 0 \<le> k then 2 ^ nat k else 1 / 2 ^ nat (- k))"

definition roundHalfEven :: "rat \<Rightarrow> int" where
  "roundHalfEven m =
     (let f = \<lfloor>m\<rfloor>; d = m - of_int f
      in if d < 1 / 2 then f else if 1 / 2 < d then f + 1 else if even f then f else f + 1)"

definition round_double :: "rat \<Rightarrow> rat" where
  "round_double x =
     (if x = 0 then 0
      else let u = pow2 (binade \<bar>x\<bar> - 52)
           in sgn x * of_int (roundHalfEven (\<bar>x\<bar> / u)) * u)"

text \<open>\<^verbatim>\<open>x / y\<close> on two doubles, for \<open>y\<close> other than zero.\<close>

definition js_div :: "rat \<Rightarrow> rat \<Rightarrow> rat" where
  "js_div x y = round_double (x / y)"

text \<open>
  Assigning \<open>v\<close> to \<^verbatim>\<open>canvas.width\<close> or \<^verbatim>\<open>canvas.height\<close>. The two attributes are
  \<^verbatim>\<open>unsigned long\<close> and reflect the content attributes: a value from 0 to 2147483647
  is kept, any other value, a negative one in particular, gives the default of the
  attribute (300 for the width, 150 for the height). The conversion to
  \<^verbatim>\<open>unsigned long\<close> first reduces the value modulo \<open>2 ^ 32\<close>; this changes the result
  only for values below \<open>- (2 ^ 31)\<close> or from \<open>2 ^ 32\<close> on, which the model does not
  follow.
\<close>

definition canvasDim :: "int \<Rightarrow> int \<Rightarrow> int" where
  "canvasDim dflt v = (if 0 \<le> v \<and> v \<le> 2147483647 then v else dflt)"

text \<open>\<^verbatim>\<open>cancelProcess\<close>.\<close>

definition cancelProcess :: "app_state \<Rightarrow> app_state" where
  "cancelProcess st = st\<lparr>isCancelled := True\<rparr>"

text \<open>An \<^verbatim>\<open>await\<close>: the environment may call \<^verbatim>\<open>cancelProcess\<close> before the run resumes.\<close>

definition suspend :: "env \<Rightarrow> await_point \<Rightarrow> app_state \<Rightarrow> app_state" where
  "suspend e p st = (if cancel_during e p then cancelProcess st else st)"

text \<open>
  \<^verbatim>\<open>getAspectRatio\<close>. A preset is the decimal numeral of the selected option, which
  \<^verbatim>\<open>parseFloat\<close> rounds to a double; the custom ratio is the quotient of two doubles.
\<close>

definition getAspectRatio :: "config \<Rightarrow> rat" where
  "getAspectRatio cfg =
     (case aspectRatio cfg of
        Custom w h \<Rightarrow> js_div (of_int (js_or w 1000)) (of_int (js_or h 1500))
      | Preset r \<Rightarrow> round_double r)"

subsection \<open>Geometry of a group\<close>

text \<open>
  Lines 198 to 208 of \<^verbatim>\<open>generate\<close>, for a group of \<open>len\<close> images. The divisor
  \<open>cols\<close> is never zero (\<open>js_or\<close>), and a quotient of two integers is floored to the
  same integer in double precision as in exact arithmetic; the quotient by the ratio, a
  double, is rounded before it is floored. A ratio of zero, where JavaScript computes
  with \<^verbatim>\<open>Infinity\<close>, is outside the model. \<open>pageW\<close> and \<open>pageH\<close> are the values the
  code assigns to the canvas.
\<close>

definition computeGeometry :: "int \<Rightarrow> int \<Rightarrow> rat \<Rightarrow> nat \<Rightarrow> geometry" where
  "computeGeometry cols gap ratio len =
     (let cw = (if cols * 1500 > MAX_CANVAS_DIM
                then \<lfloor>(of_int (MAX_CANVAS_DIM - cols * gap) :: rat) / of_int cols\<rfloor>
                else 1500);
          ch = \<lfloor>js_div (of_int cw) ratio\<rfloor>;
          realCols = cols;
          rr = \<lceil>(of_nat len :: rat) / of_int realCols\<rceil>
      in \<lparr>cellW = cw, cellH = ch, realRows = rr,
          pageW = realCols * cw + (realCols - 1) * gap,
          pageH = rr * ch + (rr - 1) * gap\<rparr>)"

subsection \<open>Drawing one tile\<close>

text \<open>
  Lines 239 to 248: the destination rectangle of \<^verbatim>\<open>drawImage\<close> for a decoded image
  of natural size \<open>iw\<close> by \<open>ih\<close> in the cell at \<open>(x, y)\<close>.
\<close>

definition coverPlacement :: "int \<Rightarrow> int \<Rightarrow> int \<Rightarrow> int \<Rightarrow> nat \<Rightarrow> nat \<Rightarrow> rect option" where
  "coverPlacement x y cw ch iw ih =
     (if ih = 0 \<or> ch = 0 then None
      else
        let iRatio = (of_nat iw :: rat) / of_nat ih;
            cRatio = (of_int cw :: rat) / of_int ch
        in if iRatio > cRatio
           then (let drawW = of_int ch * iRatio
                 in Some (Rect (of_int x - (drawW - of_int cw) / 2) (of_int y) drawW (of_int ch)))
           else if iRatio = 0 then None
           else (let drawH = of_int cw / iRatio
                 in Some (Rect (of_int x) (of_int y - (drawH - of_int ch) / 2) (of_int cw) drawH)))"

text \<open>
  \<^verbatim>\<open>drawNumber\<close>: the number written on the tile with global index \<open>index\<close>, if any.
  The font, colour, stroke and anchor of the label are not modelled.
\<close>

definition drawNumber :: "config \<Rightarrow> int \<Rightarrow> int option" where
  "drawNumber cfg index =
     (if \<not> showNum cfg then None
      else Some (js_or (startNumber_input cfg) 1 + index))"

definition cellRect :: "geometry \<Rightarrow> int \<Rightarrow> int \<Rightarrow> rect" where
  "cellRect g x y = Rect (of_int x) (of_int y) (of_int (cellW g)) (of_int (cellH g))"

text \<open>The tile that iteration \<open>i\<close> of the drawing loop of group \<open>b\<close> draws (lines 220 to 264).\<close>

definition renderTile :: "env \<Rightarrow> config \<Rightarrow> run_params \<Rightarrow> geometry \<Rightarrow> nat \<Rightarrow> nat \<Rightarrow> image \<Rightarrow> tile" where
  "renderTile e cfg prm g b i imgObj =
     (let realCols = p_cols prm;
          r = \<lfloor>(of_nat i :: rat) / of_int realCols\<rfloor>;
          c = js_rem (int i) realCols;
          x = c * (cellW g + p_gap prm);
          y = r * (cellH g + p_gap prm)
      in \<lparr>t_src = imgObj, t_x = x, t_y = y,
          t_content =
            (case decode_result e b i of
               Some (iw, ih) \<Rightarrow> Drawn (cellRect g x y) iw ih (coverPlacement x y (cellW g) (cellH g) iw ih)
             | None \<Rightarrow> Placeholder (cellRect g x y)
                         (of_int x + of_int (cellW g) / 2 - 20) (of_int y + of_int (cellH g) / 2)),
          t_label = drawNumber cfg (int i + int b * p_batchSize prm)\<rparr>)"

definition drawTile :: "env \<Rightarrow> config \<Rightarrow> run_params \<Rightarrow> geometry \<Rightarrow> nat \<Rightarrow> nat \<Rightarrow> image \<Rightarrow> app_state \<Rightarrow> app_state" where
  "drawTile e cfg prm g b i imgObj st =
     (let st1 = (if i > 0 \<and> i mod 10 = 0 then suspend e (TileSleep b i) st else st);
          st2 = suspend e (Decode b i) st1;
          st3 = (case decode_result e b i of
                   Some d \<Rightarrow> st2
                 | None \<Rightarrow> st2\<lparr>console := console st2 @ [DecodeFailed b i]\<rparr>)
      in st3\<lparr>canvas := (canvas st3)\<lparr>tiles := tiles (canvas st3) @ [renderTile e cfg prm g b i imgObj]\<rparr>\<rparr>)"

text \<open>The drawing loop (lines 214 to 265), from index \<open>i\<close> over the images still to draw.\<close>

fun drawTiles :: "env \<Rightarrow> config \<Rightarrow> run_params \<Rightarrow> geometry \<Rightarrow> nat \<Rightarrow> nat \<Rightarrow> image list \<Rightarrow> app_state
    \<Rightarrow> exn option \<times> app_state" where
  "drawTiles e cfg prm g b i [] st = (None, st)"
| "drawTiles e cfg prm g b i (imgObj # rest) st =
     (if isCancelled st then (Some CancelledError, st)
      else drawTiles e cfg prm g b (Suc i) rest (drawTile e cfg prm g b i imgObj st))"

subsection \<open>The loop over the groups\<close>

definition batchImgs :: "run_params \<Rightarrow> image list \<Rightarrow> nat \<Rightarrow> image list" where
  "batchImgs prm imgs b =
     js_slice imgs (int b * p_batchSize prm) ((int b + 1) * p_batchSize prm)"

definition groupGeometry :: "config \<Rightarrow> run_params \<Rightarrow> image list \<Rightarrow> nat \<Rightarrow> geometry" where
  "groupGeometry cfg prm imgs b =
     computeGeometry (p_cols prm) (p_gap prm) (getAspectRatio cfg) (length (batchImgs prm imgs b))"

text \<open>Lines 207 to 211: sizing the canvas clears it, then the white background is filled.\<close>

definition allocSurface :: "geometry \<Rightarrow> surface" where
  "allocSurface g =
     \<lparr>width = canvasDim 300 (pageW g), height = canvasDim 150 (pageH g), background = True,
      tiles = [], overlay = None\<rparr>"

text \<open>Lines 287 and 288.\<close>

definition releasedSurface :: surface where
  "releasedSurface = \<lparr>width = 1, height = 1, background = False, tiles = [], overlay = None\<rparr>"

definition makeBlob :: "run_params \<Rightarrow> surface \<Rightarrow> blob" where
  "makeBlob prm s =
     \<lparr>b_type = (if p_qVal prm = 100 then ImagePng else ImageJpeg),
      b_quality = p_qVal prm, b_page = s\<rparr>"

text \<open>Lines 268 to 288 of one group: overlay, encoding, preview, release of the canvas.\<close>

definition finishGroup :: "env \<Rightarrow> run_params \<Rightarrow> nat \<Rightarrow> app_state \<Rightarrow> exn option \<times> app_state" where
  "finishGroup e prm b st =
     (let st1 = (case overlayImg st of
                   Some ov \<Rightarrow> st\<lparr>canvas := (canvas st)\<lparr>overlay := Some ov\<rparr>\<rparr>
                 | None \<Rightarrow> st);
          st2 = suspend e (Encode b) st1
      in if encode_ok e b
         then (let bl = makeBlob prm (canvas st2)
               in (None, st2\<lparr>generatedBlobs := generatedBlobs st2 @ [Some bl],
                             previews := previews st2 @ [bl],
                             canvas := releasedSurface\<rparr>))
         else (Some TypeError, st2\<lparr>generatedBlobs := generatedBlobs st2 @ [None]\<rparr>))"

text \<open>Lines 192 to 288: the body of the loop for group \<open>b\<close>, after the check of the flag.\<close>

definition runGroup :: "env \<Rightarrow> config \<Rightarrow> run_params \<Rightarrow> nat \<Rightarrow> app_state \<Rightarrow> exn option \<times> app_state" where
  "runGroup e cfg prm b st =
     (let st1 = suspend e (GroupSleep b) (st\<lparr>toastVisible := True\<rparr>);
          imgs = batchImgs prm (images st1) b;
          g = groupGeometry cfg prm (images st1) b;
          st2 = st1\<lparr>canvas := allocSurface g\<rparr>
      in case drawTiles e cfg prm g b 0 imgs st2 of
           (Some x, st3) \<Rightarrow> (Some x, st3)
         | (None, st3) \<Rightarrow> finishGroup e prm b st3)"

function batchLoop :: "env \<Rightarrow> config \<Rightarrow> run_params \<Rightarrow> nat \<Rightarrow> app_state \<Rightarrow> loop_exit \<times> app_state" where
  "batchLoop e cfg prm b st =
     (if int b < p_totalBatches prm
      then (if isCancelled st then (Broke, st)
            else (case runGroup e cfg prm b st of
                    (Some x, st') \<Rightarrow> (Threw x, st')
                  | (None, st') \<Rightarrow> batchLoop e cfg prm (Suc b) st'))
      else (Exhausted, st))"
  by pat_completeness auto
termination
  by (relation "measure (\<lambda>(e, cfg, prm, b, st). nat (p_totalBatches prm) - b)") auto

subsection \<open>generate\<close>

definition readParams :: "config \<Rightarrow> nat \<Rightarrow> run_params" where
  "readParams cfg n =
     (let cols = js_or (cols_input cfg) 3;
          rows = js_or (rows_input cfg) 3;
          qVal = js_or (quality_input cfg) 50;
          gap = js_or (gap_input cfg) 0;
          batchSize = cols * rows
      in \<lparr>p_cols = cols, p_rows = rows, p_qVal = qVal, p_gap = gap,
          p_batchSize = batchSize,
          p_totalBatches = \<lceil>(of_nat n :: rat) / of_int batchSize\<rceil>\<rparr>)"

text \<open>Lines 166 to 175: the state in which \<^verbatim>\<open>generate\<close> enters its loop.\<close>

definition startState :: "app_state \<Rightarrow> app_state" where
  "startState st =
     st\<lparr>isCancelled := False, resultHidden := True, previews := [], generatedBlobs := []\<rparr>"

definition generate :: "env \<Rightarrow> config \<Rightarrow> app_state \<Rightarrow> outcome \<times> app_state" where
  "generate e cfg st =
     (if images st = [] then (Rejected, st\<lparr>alerts := alerts st @ [AlertNoImages]\<rparr>)
      else
        let st0 = startState st;
            prm = readParams cfg (length (images st0))
        in case batchLoop e cfg prm 0 st0 of
             (Threw x, st1) \<Rightarrow>
               (if isCancelled st1
                then (Cancelled, st1\<lparr>console := console st1 @ [RunError x], toastVisible := False\<rparr>)
                else (Failed, st1\<lparr>console := console st1 @ [RunError x],
                                  alerts := alerts st1 @ [AlertGenerateFailed x],
                                  toastVisible := False\<rparr>))
           | (Broke, st1) \<Rightarrow> (Cancelled, st1\<lparr>resultHidden := False, toastVisible := False\<rparr>)
           | (Exhausted, st1) \<Rightarrow> (Completed, st1\<lparr>resultHidden := False, toastVisible := False\<rparr>))"

subsection \<open>The image store, reordering and removeDuplicates\<close>

text \<open>
  The object store \<^verbatim>\<open>images\<close>, as the list of its records in key order, which is the
  order \<^verbatim>\<open>getAll\<close> returns them in (the key is the auto-incremented \<^verbatim>\<open>id\<close>).
\<close>

type_synonym store = "db_record list"

definition DB_delete :: "nat \<Rightarrow> store \<Rightarrow> store" where
  "DB_delete k db = filter (\<lambda>r. rec_id r \<noteq> k) db"

definition DB_getAll :: "store \<Rightarrow> db_record list" where
  "DB_getAll db = db"

text \<open>\<^verbatim>\<open>refreshImagesFromDB\<close>: \<^verbatim>\<open>state.images\<close> is rebuilt from the store.\<close>

definition refreshImagesFromDB :: "store \<Rightarrow> image list" where
  "refreshImagesFromDB db =
     map (\<lambda>r. \<lparr>img_id = rec_id r, img_name = rec_name r, img_url = rec_blob r\<rparr>) (DB_getAll db)"

text \<open>
  The \<^verbatim>\<open>onEnd\<close> handler of the sortable grid (lines 157 and 158): the dragged entry
  moves inside \<^verbatim>\<open>state.images\<close> only; the store is not touched. The grid reports
  indices of existing entries; for any other index the result is \<open>None\<close>.
\<close>

definition onEnd :: "nat \<Rightarrow> nat \<Rightarrow> image list \<Rightarrow> image list option" where
  "onEnd oldIndex newIndex imgs =
     (if oldIndex < length imgs \<and> newIndex < length imgs
      then (let item = imgs ! oldIndex;
                rest = take oldIndex imgs @ drop (Suc oldIndex) imgs
            in Some (take newIndex rest @ [item] @ drop newIndex rest))
      else None)"

text \<open>The \<^verbatim>\<open>forEach\<close> of \<^verbatim>\<open>removeDuplicates\<close> with its three accumulators.\<close>

fun dedupScan :: "image list \<Rightarrow> string set \<Rightarrow> nat list \<Rightarrow> nat list \<Rightarrow> nat list \<times> nat list" where
  "dedupScan [] seen keepIds deleteIds = (keepIds, deleteIds)"
| "dedupScan (img # rest) seen keepIds deleteIds =
     (if img_name img \<in> seen then dedupScan rest seen keepIds (deleteIds @ [img_id img])
      else dedupScan rest (insert (img_name img) seen) (keepIds @ [img_id img]) deleteIds)"

definition removeDuplicates :: "store \<Rightarrow> image list \<Rightarrow> store \<times> image list" where
  "removeDuplicates db imgs =
     (let (keepIds, deleteIds) = dedupScan imgs {} [] [];
          db' = fold DB_delete deleteIds db
      in (db', refreshImagesFromDB db'))"

text \<open>
  The words of the specification: the first image, in the order of the sequence, that
  bears a given display name.
\<close>

definition firstWithName :: "image list \<Rightarrow> string \<Rightarrow> image option" where
  "firstWithName imgs nm = find (\<lambda>x. img_name x = nm) imgs"

subsection \<open>Closed forms of what the loops compute\<close>

text \<open>
  \<^verbatim>\<open>cancelProcess\<close> is called while tile \<open>i\<close> of group \<open>b\<close> is being processed:
  during its \<^verbatim>\<open>decode\<close>, or during the \<^verbatim>\<open>sleep(20)\<close> that precedes every tenth tile.
\<close>

definition arrives :: "env \<Rightarrow> nat \<Rightarrow> nat \<Rightarrow> bool" where
  "arrives e b i \<longleftrightarrow>
     cancel_during e (Decode b i) \<or> (0 < i \<and> i mod 10 = 0 \<and> cancel_during e (TileSleep b i))"

text \<open>No call of \<^verbatim>\<open>cancelProcess\<close> while group \<open>b\<close> is being produced.\<close>

definition quietGroup :: "env \<Rightarrow> nat \<Rightarrow> bool" where
  "quietGroup e b \<longleftrightarrow>
     \<not> cancel_during e (GroupSleep b) \<and> (\<forall>i. \<not> arrives e b i) \<and> \<not> cancel_during e (Encode b)"

text \<open>
  The tiles, the log lines and the finished page of group \<open>b\<close> written with \<open>map\<close>
  instead of the loop; the lemmas below prove that the loop computes them.
\<close>

definition expectedTiles :: "env \<Rightarrow> config \<Rightarrow> run_params \<Rightarrow> geometry \<Rightarrow> nat \<Rightarrow> image list \<Rightarrow> tile list" where
  "expectedTiles e cfg prm g b imgs =
     map (\<lambda>(j, x). renderTile e cfg prm g b j x) (enumerate 0 imgs)"

definition expectedLog :: "env \<Rightarrow> nat \<Rightarrow> image list \<Rightarrow> log_entry list" where
  "expectedLog e b imgs =
     concat (map (\<lambda>(j, x). if decode_result e b j = None then [DecodeFailed b j] else [])
       (enumerate 0 imgs))"

definition expectedPage :: "env \<Rightarrow> config \<Rightarrow> run_params \<Rightarrow> image list \<Rightarrow> nat option \<Rightarrow> nat \<Rightarrow> surface" where
  "expectedPage e cfg prm imgs ov b =
     (allocSurface (groupGeometry cfg prm imgs b))
       \<lparr>tiles := expectedTiles e cfg prm (groupGeometry cfg prm imgs b) b (batchImgs prm imgs b),
        overlay := ov\<rparr>"

definition expectedBlob :: "env \<Rightarrow> config \<Rightarrow> run_params \<Rightarrow> image list \<Rightarrow> nat option \<Rightarrow> nat \<Rightarrow> blob" where
  "expectedBlob e cfg prm imgs ov b = makeBlob prm (expectedPage e cfg prm imgs ov b)"

text \<open>The state after group \<open>b\<close> has been produced without interruption.\<close>

definition afterGroup :: "env \<Rightarrow> config \<Rightarrow> run_params \<Rightarrow> nat \<Rightarrow> app_state \<Rightarrow> app_state" where
  "afterGroup e cfg prm b st =
     st\<lparr>toastVisible := True, canvas := releasedSurface,
        generatedBlobs := generatedBlobs st @
          [Some (expectedBlob e cfg prm (images st) (overlayImg st) b)],
        previews := previews st @ [expectedBlob e cfg prm (images st) (overlayImg st) b],
        console := console st @ expectedLog e b (batchImgs prm (images st) b)\<rparr>"


text \<open>
  The canvas semantics the claims about clipping rest on: a point lies in a rectangle, and
  the points a tile paints. \<^verbatim>\<open>drawImage\<close> under a clip path paints where the clip
  rectangle and the destination rectangle overlap; \<^verbatim>\<open>fillRect\<close> paints its rectangle
  (the glyph drawn over the placeholder is left out).
\<close>

definition inRect :: "rect \<Rightarrow> rat \<times> rat \<Rightarrow> bool" where
  "inRect r p \<longleftrightarrow>
     r_x r \<le> fst p \<and> fst p < r_x r + r_w r \<and> r_y r \<le> snd p \<and> snd p < r_y r + r_h r"

definition painted :: "tile_content \<Rightarrow> rat \<times> rat \<Rightarrow> bool" where
  "painted tc p =
     (case tc of
        Drawn clip iw ih (Some d) \<Rightarrow> inRect clip p \<and> inRect d p
      | Drawn clip iw ih None \<Rightarrow> False
      | Placeholder r gx gy \<Rightarrow> inRect r p)"

subsection \<open>Concrete inputs\<close>

text \<open>An environment in which nobody cancels, every image decodes and every page encodes.\<close>

definition quietEnv :: env where
  "quietEnv = \<lparr>cancel_during = (\<lambda>p. False), decode_result = (\<lambda>b i. Some (800, 600)),
                encode_ok = (\<lambda>b. True)\<rparr>"

definition photo :: "nat \<Rightarrow> image" where
  "photo k = \<lparr>img_id = k, img_name = ''photo.jpg'', img_url = k\<rparr>"

text \<open>The page as loaded: a canvas of the default size and nothing generated yet.\<close>

definition idleState :: "image list \<Rightarrow> app_state" where
  "idleState imgs =
     \<lparr>images = imgs, generatedBlobs = [], isCancelled = False, overlayImg = None,
      canvas = \<lparr>width = 300, height = 150, background = False, tiles = [], overlay = None\<rparr>,
      toastVisible = False, resultHidden = True, previews = [], alerts = [], console = []\<rparr>"

definition gridConfig :: "int \<Rightarrow> int \<Rightarrow> config" where
  "gridConfig c r =
     \<lparr>cols_input = Some c, rows_input = Some r, quality_input = Some 90, gap_input = Some 0,
      aspectRatio = Preset 1, showNum = True, startNumber_input = Some 1\<rparr>"



definition wideConfig :: config where
  "wideConfig =
     \<lparr>cols_input = Some 6, rows_input = Some 2, quality_input = Some 100, gap_input = Some 10,
      aspectRatio = Custom (Some 2) (Some 3), showNum = True, startNumber_input = Some 5\<rparr>"

text \<open>As \<open>quietEnv\<close>, but the decode of the second image of the first group is rejected.\<close>

definition flakyEnv :: env where
  "flakyEnv = \<lparr>cancel_during = (\<lambda>p. False),
                decode_result = (\<lambda>b i. if b = 0 \<and> i = 1 then None else Some (800, 600)),
                encode_ok = (\<lambda>b. True)\<rparr>"

text \<open>An environment in which \<^verbatim>\<open>cancelProcess\<close> is called once, during the suspension \<open>p\<close>.\<close>

definition cancelAt :: "await_point \<Rightarrow> env" where
  "cancelAt p = \<lparr>cancel_during = (\<lambda>q. q = p), decode_result = (\<lambda>b i. Some (800, 600)),
                 encode_ok = (\<lambda>b. True)\<rparr>"

text \<open>The settings of \<open>gridConfig 2 2\<close> with the start number field set to 0.\<close>

definition zeroStartConfig :: config where
  "zeroStartConfig = (gridConfig 2 2)\<lparr>startNumber_input := Some 0\<rparr>"

text \<open>An environment in which \<^verbatim>\<open>toBlob\<close> hands \<^verbatim>\<open>null\<close> to its callback.\<close>

definition brokenEncoder :: env where
  "brokenEncoder = \<lparr>cancel_during = (\<lambda>p. False), decode_result = (\<lambda>b i. Some (800, 600)),
                     encode_ok = (\<lambda>b. False)\<rparr>"

text \<open>A store of two images with different names, and one with a repeated name.\<close>

definition twoRecords :: store where
  "twoRecords = [\<lparr>rec_id = 1, rec_name = ''a.jpg'', rec_blob = 11\<rparr>,
                 \<lparr>rec_id = 2, rec_name = ''b.jpg'', rec_blob = 12\<rparr>]"

definition repeatedRecords :: store where
  "repeatedRecords = [\<lparr>rec_id = 1, rec_name = ''a.jpg'', rec_blob = 11\<rparr>,
                      \<lparr>rec_id = 2, rec_name = ''b.jpg'', rec_blob = 12\<rparr>,
                      \<lparr>rec_id = 3, rec_name = ''a.jpg'', rec_blob = 13\<rparr>]"

section \<open>Properties\<close>

declare batchLoop.simps [simp del]

declare bits.simps [simp del]

subsection \<open>Double precision and the canvas at the values used below\<close>

lemma round_double_one: "round_double 1 = 1"
  by code_simp

lemma js_div_1500_1: "js_div 1500 1 = 1500"
  by code_simp

lemma canvasDim_in_range: "0 \<le> v \<Longrightarrow> v \<le> 2147483647 \<Longrightarrow> canvasDim dflt v = v"
  by (simp add: canvasDim_def)

lemma canvasDim_le: "v \<le> m \<Longrightarrow> dflt \<le> m \<Longrightarrow> canvasDim dflt v \<le> m"
  by (simp add: canvasDim_def)

subsection \<open>The drawing loop\<close>

lemma drawTile_eq:
  "drawTile e cfg prm g b i x st =
     st\<lparr>isCancelled := isCancelled st \<or> arrives e b i,
        canvas := (canvas st)\<lparr>tiles := tiles (canvas st) @ [renderTile e cfg prm g b i x]\<rparr>,
        console := console st @ (if decode_result e b i = None then [DecodeFailed b i] else [])\<rparr>"
  by (cases "decode_result e b i")
     (auto simp add: drawTile_def suspend_def cancelProcess_def Let_def arrives_def)

lemma drawTiles_None:
  "drawTiles e cfg prm g b i imgs st = (None, st') \<Longrightarrow>
   st' = st\<lparr>isCancelled := isCancelled st',
            canvas := (canvas st)\<lparr>tiles := tiles (canvas st) @
               map (\<lambda>(j, x). renderTile e cfg prm g b j x) (enumerate i imgs)\<rparr>,
            console := console st @
               concat (map (\<lambda>(j, x). if decode_result e b j = None then [DecodeFailed b j] else [])
                 (enumerate i imgs))\<rparr>"
proof (induction imgs arbitrary: i st)
  case Nil
  then show ?case by simp
next
  case (Cons x xs)
  from Cons.prems have nc: "\<not> isCancelled st"
    and run: "drawTiles e cfg prm g b (Suc i) xs (drawTile e cfg prm g b i x st) = (None, st')"
    by (auto split: if_splits)
  show ?case
    using Cons.IH [OF run]
    by (simp add: drawTile_eq)
qed

lemma drawTiles_Some:
  "drawTiles e cfg prm g b i imgs st = (Some x, st') \<Longrightarrow>
   x = CancelledError \<and> isCancelled st' \<and> generatedBlobs st' = generatedBlobs st
     \<and> previews st' = previews st \<and> images st' = images st"
proof (induction imgs arbitrary: i st)
  case Nil
  then show ?case by simp
next
  case (Cons y ys)
  show ?case
  proof (cases "isCancelled st")
    case True
    with Cons.prems show ?thesis by simp
  next
    case False
    with Cons.prems
    have "drawTiles e cfg prm g b (Suc i) ys (drawTile e cfg prm g b i y st) = (Some x, st')"
      by simp
    from Cons.IH [OF this] show ?thesis by (simp add: drawTile_eq)
  qed
qed

lemma drawTiles_cancelled:
  "isCancelled st \<Longrightarrow> imgs \<noteq> [] \<Longrightarrow>
   drawTiles e cfg prm g b i imgs st = (Some CancelledError, st)"
  by (cases imgs) simp_all

lemma drawTiles_runs:
  "\<not> isCancelled st \<Longrightarrow> (\<forall>j. i \<le> j \<longrightarrow> Suc j < i + length imgs \<longrightarrow> \<not> arrives e b j) \<Longrightarrow>
   fst (drawTiles e cfg prm g b i imgs st) = None"
proof (induction imgs arbitrary: i st)
  case Nil
  then show ?case by simp
next
  case (Cons y ys)
  show ?case
  proof (cases ys)
    case Nil
    with Cons.prems show ?thesis by simp
  next
    case (Cons z zs)
    with Cons.prems have "\<not> arrives e b i" by simp
    with Cons.prems have nc: "\<not> isCancelled (drawTile e cfg prm g b i y st)"
      by (simp add: drawTile_eq)
    have "\<forall>j. Suc i \<le> j \<longrightarrow> Suc j < Suc i + length ys \<longrightarrow> \<not> arrives e b j"
      using Cons.prems(2) by simp
    from Cons.IH [OF nc this] Cons.prems(1) show ?thesis by simp
  qed
qed

lemma drawTiles_quiet_flag:
  "\<not> isCancelled st \<Longrightarrow> (\<forall>j. \<not> arrives e b j) \<Longrightarrow>
   \<not> isCancelled (snd (drawTiles e cfg prm g b i imgs st))"
  by (induction imgs arbitrary: i st) (simp_all add: drawTile_eq)

lemma drawTiles_throws:
  "i \<le> j \<Longrightarrow> Suc j < i + length imgs \<Longrightarrow> arrives e b j \<Longrightarrow>
   fst (drawTiles e cfg prm g b i imgs st) = Some CancelledError"
proof (induction imgs arbitrary: i st)
  case Nil
  then show ?case by simp
next
  case (Cons y ys)
  show ?case
  proof (cases "isCancelled st")
    case True
    then show ?thesis by simp
  next
    case False
    show ?thesis
    proof (cases "j = i")
      case True
      with Cons.prems have "ys \<noteq> []" by auto
      moreover from True Cons.prems have "isCancelled (drawTile e cfg prm g b i y st)"
        by (simp add: drawTile_eq)
      ultimately show ?thesis using False by (simp add: drawTiles_cancelled)
    next
      case ne: False
      with Cons.prems have "Suc i \<le> j" "Suc j < Suc i + length ys" by simp_all
      from Cons.IH [OF this Cons.prems(3)] False show ?thesis by simp
    qed
  qed
qed

subsection \<open>One group\<close>

lemma unset_flag: "\<not> isCancelled st \<Longrightarrow> st\<lparr>isCancelled := False\<rparr> = st"
  by (cases st) simp

lemma runGroup_quiet:
  assumes nc: "\<not> isCancelled st"
    and gs: "\<not> cancel_during e (GroupSleep b)"
    and q: "\<forall>j. \<not> arrives e b j"
    and ok: "encode_ok e b"
  shows "runGroup e cfg prm b st =
           (None, (afterGroup e cfg prm b st)\<lparr>isCancelled := cancel_during e (Encode b)\<rparr>)"
proof -
  define st2 where "st2 = st\<lparr>toastVisible := True, canvas := allocSurface (groupGeometry cfg prm (images st) b)\<rparr>"
  define g where "g = groupGeometry cfg prm (images st) b"
  define imgs where "imgs = batchImgs prm (images st) b"
  obtain r st3 where dt: "drawTiles e cfg prm g b 0 imgs st2 = (r, st3)"
    by (cases "drawTiles e cfg prm g b 0 imgs st2")
  have nc2: "\<not> isCancelled st2" using nc by (simp add: st2_def)
  from drawTiles_runs [OF nc2, of 0 imgs e b cfg prm g] q dt have r: "r = None" by simp
  from drawTiles_quiet_flag [OF nc2 q, of cfg prm g 0 imgs] dt have nc3: "\<not> isCancelled st3" by simp
  from drawTiles_None [OF dt [unfolded r]] nc3
  have st3: "st3 = st2\<lparr>isCancelled := False,
            canvas := (canvas st2)\<lparr>tiles := tiles (canvas st2) @
               map (\<lambda>(j, x). renderTile e cfg prm g b j x) (enumerate 0 imgs)\<rparr>,
            console := console st2 @
               concat (map (\<lambda>(j, x). if decode_result e b j = None then [DecodeFailed b j] else [])
                 (enumerate 0 imgs))\<rparr>"
    by simp
  have rg: "runGroup e cfg prm b st = finishGroup e prm b st3"
    using dt r gs by (simp add: runGroup_def suspend_def Let_def st2_def g_def imgs_def)
  show ?thesis
    unfolding rg st3
    using ok nc
    by (cases "overlayImg st")
       (simp_all add: finishGroup_def suspend_def cancelProcess_def Let_def st2_def g_def imgs_def
          afterGroup_def expectedBlob_def expectedPage_def expectedTiles_def expectedLog_def
          allocSurface_def app_state.equality)
qed

subsection \<open>The loop over the groups\<close>

lemma afterGroup_sel [simp]:
  "images (afterGroup e cfg prm b st) = images st"
  "overlayImg (afterGroup e cfg prm b st) = overlayImg st"
  "isCancelled (afterGroup e cfg prm b st) = isCancelled st"
  "alerts (afterGroup e cfg prm b st) = alerts st"
  "resultHidden (afterGroup e cfg prm b st) = resultHidden st"
  "canvas (afterGroup e cfg prm b st) = releasedSurface"
  "toastVisible (afterGroup e cfg prm b st) = True"
  by (simp_all add: afterGroup_def)

lemma afterGroups_sel [simp]:
  "images (fold (afterGroup e cfg prm) js st) = images st"
  "overlayImg (fold (afterGroup e cfg prm) js st) = overlayImg st"
  "isCancelled (fold (afterGroup e cfg prm) js st) = isCancelled st"
  "alerts (fold (afterGroup e cfg prm) js st) = alerts st"
  "resultHidden (fold (afterGroup e cfg prm) js st) = resultHidden st"
  by (induction js arbitrary: st) simp_all

lemma afterGroups_blobs:
  "generatedBlobs (fold (afterGroup e cfg prm) js st) =
     generatedBlobs st @ map (\<lambda>j. Some (expectedBlob e cfg prm (images st) (overlayImg st) j)) js"
  by (induction js arbitrary: st) (simp_all add: afterGroup_def)

lemma afterGroups_previews:
  "previews (fold (afterGroup e cfg prm) js st) =
     previews st @ map (expectedBlob e cfg prm (images st) (overlayImg st)) js"
  by (induction js arbitrary: st) (simp_all add: afterGroup_def)

lemma afterGroups_console:
  "console (fold (afterGroup e cfg prm) js st) =
     console st @ concat (map (\<lambda>j. expectedLog e j (batchImgs prm (images st) j)) js)"
  by (induction js arbitrary: st) (simp_all add: afterGroup_def)

lemma afterGroups_canvas:
  "canvas (fold (afterGroup e cfg prm) js st) = (if js = [] then canvas st else releasedSurface)"
  by (induction js arbitrary: st rule: rev_induct) simp_all

lemma batchLoop_prefix:
  assumes nc: "\<not> isCancelled st"
    and q: "\<forall>j. b \<le> j \<and> j < k \<longrightarrow> quietGroup e j \<and> encode_ok e j"
    and le: "b \<le> k" and tot: "b < k \<longrightarrow> int k \<le> p_totalBatches prm"
  shows "batchLoop e cfg prm b st
           = batchLoop e cfg prm k (fold (afterGroup e cfg prm) [b..<k] st)"
  using q le tot
proof (induction k)
  case 0
  then show ?case by simp
next
  case (Suc k)
  show ?case
  proof (cases "b = Suc k")
    case True
    then show ?thesis by simp
  next
    case False
    with Suc.prems have bk: "b \<le> k" by simp
    define sk where "sk = fold (afterGroup e cfg prm) [b..<k] st"
    have ih: "batchLoop e cfg prm b st = batchLoop e cfg prm k sk"
      unfolding sk_def using Suc.IH Suc.prems bk by simp
    have nck: "\<not> isCancelled sk" using nc by (simp add: sk_def)
    from Suc.prems(1) bk have qk: "quietGroup e k" and ok: "encode_ok e k" by simp_all
    from qk have rg: "runGroup e cfg prm k sk = (None, afterGroup e cfg prm k sk)"
      using runGroup_quiet [OF nck _ _ ok, of cfg prm] nck
      by (simp add: quietGroup_def unset_flag)
    have lt: "int k < p_totalBatches prm" using Suc.prems(3) bk by simp
    have "batchLoop e cfg prm k sk = batchLoop e cfg prm (Suc k) (afterGroup e cfg prm k sk)"
      by (subst batchLoop.simps) (simp add: lt nck rg)
    moreover have "fold (afterGroup e cfg prm) [b..<Suc k] st = afterGroup e cfg prm k sk"
      using bk by (simp add: sk_def)
    ultimately show ?thesis using ih by simp
  qed
qed

lemma batchLoop_end:
  "p_totalBatches prm \<le> int b \<Longrightarrow> batchLoop e cfg prm b st = (Exhausted, st)"
  by (subst batchLoop.simps) simp

lemma batchLoop_break:
  "int b < p_totalBatches prm \<Longrightarrow> isCancelled st \<Longrightarrow> batchLoop e cfg prm b st = (Broke, st)"
  by (subst batchLoop.simps) simp

lemma startState_sel [simp]:
  "images (startState st) = images st"
  "overlayImg (startState st) = overlayImg st"
  "isCancelled (startState st) = False"
  "generatedBlobs (startState st) = []"
  "previews (startState st) = []"
  "console (startState st) = console st"
  "alerts (startState st) = alerts st"
  "canvas (startState st) = canvas st"
  by (simp_all add: startState_def)

lemma generate_quiet:
  assumes ne: "images st \<noteq> []"
    and q: "\<forall>j. quietGroup e j \<and> encode_ok e j"
  shows "generate e cfg st =
           (Completed,
            (fold (afterGroup e cfg (readParams cfg (length (images st))))
               [0..<nat (p_totalBatches (readParams cfg (length (images st))))] (startState st))
              \<lparr>resultHidden := False, toastVisible := False\<rparr>)"
proof -
  define prm where "prm = readParams cfg (length (images st))"
  define k where "k = nat (p_totalBatches prm)"
  have "batchLoop e cfg prm 0 (startState st)
          = batchLoop e cfg prm k (fold (afterGroup e cfg prm) [0..<k] (startState st))"
    by (rule batchLoop_prefix) (simp_all add: q k_def)
  also have "\<dots> = (Exhausted, fold (afterGroup e cfg prm) [0..<k] (startState st))"
    by (rule batchLoop_end) (simp add: k_def)
  finally show ?thesis
    using ne by (simp add: generate_def Let_def prm_def k_def)
qed

subsection \<open>Batches\<close>

lemma js_slice_nat: "js_slice xs (int s) (int (s + m)) = take m (drop s xs)"
proof (cases "s < length xs")
  case False
  then have "min (int s) (int (length xs)) = int (length xs)"
    and "min (int (s + m)) (int (length xs)) = int (length xs)" by simp_all
  then have "js_slice xs (int s) (int (s + m)) = []"
    unfolding js_slice_def Let_def by simp
  with False show ?thesis by simp
next
  case True
  then have k: "min (int s) (int (length xs)) = int s" by simp
  have f: "min (int (s + m)) (int (length xs)) = int (min (s + m) (length xs))" by simp
  have d: "nat (int (min (s + m) (length xs)) - int s) = min m (length xs - s)"
    using True by (auto simp add: min_def)
  have "js_slice xs (int s) (int (s + m)) = take (min m (length xs - s)) (drop s xs)"
    unfolding js_slice_def Let_def using k f d by simp
  also have "\<dots> = take m (drop s xs)"
    by (simp add: min_def)
  finally show ?thesis .
qed

lemma js_slice_batch:
  assumes "0 < bs"
  shows "js_slice xs (int b * bs) ((int b + 1) * bs) = take (nat bs) (drop (b * nat bs) xs)"
proof -
  define m where "m = nat bs"
  have m: "bs = int m" using assms by (simp add: m_def)
  have s: "int b * bs = int (b * m)" and f: "(int b + 1) * bs = int (b * m + m)"
    by (simp_all add: m algebra_simps)
  show ?thesis
    unfolding s f js_slice_nat by (simp add: m_def)
qed

lemma batchImgs_pos:
  "0 < p_batchSize prm \<Longrightarrow>
   batchImgs prm imgs b = take (nat (p_batchSize prm)) (drop (b * nat (p_batchSize prm)) imgs)"
  by (simp add: batchImgs_def js_slice_batch)

lemma totalBatches_less:
  assumes "0 < bs"
  shows "int b < \<lceil>(of_nat n :: rat) / of_int bs\<rceil> \<longleftrightarrow> int b * bs < int n"
proof -
  have "int b < \<lceil>(of_nat n :: rat) / of_int bs\<rceil> \<longleftrightarrow> (of_int (int b) :: rat) < of_nat n / of_int bs"
    by (rule less_ceiling_iff)
  also have "\<dots> \<longleftrightarrow> (of_int (int b) :: rat) * of_int bs < of_nat n"
    using assms by (simp add: pos_less_divide_eq)
  also have "\<dots> \<longleftrightarrow> (of_int (int b * bs) :: rat) < of_int (int n)"
    by simp
  also have "\<dots> \<longleftrightarrow> int b * bs < int n"
    by (rule of_int_less_iff)
  finally show ?thesis .
qed

lemma totalBatches_nonpos:
  assumes "bs < 0"
  shows "\<lceil>(of_nat n :: rat) / of_int bs\<rceil> \<le> 0"
proof -
  have "(of_nat n :: rat) / of_int bs \<le> 0"
    using assms by (simp add: divide_nonneg_neg divide_le_0_iff)
  then show ?thesis by (simp add: ceiling_le_iff)
qed

lemma readParams_sel [simp]:
  "p_cols (readParams cfg n) = js_or (cols_input cfg) 3"
  "p_rows (readParams cfg n) = js_or (rows_input cfg) 3"
  "p_qVal (readParams cfg n) = js_or (quality_input cfg) 50"
  "p_gap (readParams cfg n) = js_or (gap_input cfg) 0"
  "p_batchSize (readParams cfg n) = js_or (cols_input cfg) 3 * js_or (rows_input cfg) 3"
  "p_totalBatches (readParams cfg n) =
     \<lceil>(of_nat n :: rat) / of_int (js_or (cols_input cfg) 3 * js_or (rows_input cfg) 3)\<rceil>"
  by (simp_all add: readParams_def Let_def)

lemma js_or_nonzero: "d \<noteq> 0 \<Longrightarrow> js_or v d \<noteq> 0"
  by (simp add: js_or_def split: option.splits)

lemma batch_nonempty:
  assumes b: "int b < p_totalBatches (readParams cfg (length imgs))"
  shows "batchImgs (readParams cfg (length imgs)) imgs b \<noteq> []"
proof -
  define bs where "bs = p_batchSize (readParams cfg (length imgs))"
  have nz: "bs \<noteq> 0" by (simp add: bs_def js_or_nonzero)
  have tot: "p_totalBatches (readParams cfg (length imgs)) = \<lceil>(of_nat (length imgs) :: rat) / of_int bs\<rceil>"
    by (simp add: bs_def)
  have pos: "0 < bs"
  proof (rule ccontr)
    assume "\<not> 0 < bs"
    with nz have "bs < 0" by simp
    then have "p_totalBatches (readParams cfg (length imgs)) \<le> 0"
      unfolding tot by (rule totalBatches_nonpos)
    with b show False by linarith
  qed
  from b tot totalBatches_less [OF pos, of b "length imgs"]
  have lt: "int b * bs < int (length imgs)" by simp
  have "int (b * nat bs) = int b * bs" using pos by simp
  with lt have "b * nat bs < length imgs" by (metis of_nat_less_iff)
  moreover have "0 < nat bs" using pos by simp
  ultimately have "take (nat bs) (drop (b * nat bs) imgs) \<noteq> []" by simp
  then show ?thesis
    using batchImgs_pos [of "readParams cfg (length imgs)" imgs b] pos
    unfolding bs_def by simp
qed

lemma expectedTiles_src:
  "map t_src (map (\<lambda>(j, x). renderTile e cfg prm g b j x) (enumerate i imgs)) = imgs"
  by (induction imgs arbitrary: i) (simp_all add: renderTile_def Let_def)

lemma expectedTiles_length [simp]:
  "length (expectedTiles e cfg prm g b imgs) = length imgs"
  by (simp add: expectedTiles_def)

lemma last_batch_size:
  fixes n bs b :: nat
  assumes "0 < bs" "b * bs < n" "n \<le> Suc b * bs"
  shows "n - b * bs = (if n mod bs = 0 then bs else n mod bs)"
proof -
  define m where "m = n - b * bs"
  have n: "n = b * bs + m" and m: "0 < m" "m \<le> bs" using assms by (simp_all add: m_def)
  show ?thesis
  proof (cases "m = bs")
    case True
    then show ?thesis unfolding m_def [symmetric] n by simp
  next
    case False
    with m have "m < bs" by simp
    then show ?thesis unfolding m_def [symmetric] n using m by simp
  qed
qed

subsection \<open>Batching (C1)\<close>

lemma quiet_all: "\<forall>p. \<not> cancel_during e p \<Longrightarrow> quietGroup e j"
  by (simp add: quietGroup_def arrives_def)

lemma generate_quiet_blobs:
  assumes "images st \<noteq> []" and "\<forall>j. quietGroup e j \<and> encode_ok e j"
  shows "generatedBlobs (snd (generate e cfg st)) =
           map (\<lambda>j. Some (expectedBlob e cfg (readParams cfg (length (images st))) (images st) (overlayImg st) j))
             [0..<nat (p_totalBatches (readParams cfg (length (images st))))]"
  by (simp add: generate_quiet [OF assms] afterGroups_blobs)

lemma expectedBlob_tiles:
  "tiles (b_page (expectedBlob e cfg prm imgs ov b))
     = expectedTiles e cfg prm (groupGeometry cfg prm imgs b) b (batchImgs prm imgs b)"
  by (simp add: expectedBlob_def makeBlob_def expectedPage_def)

lemma expectedTiles_src': "map t_src (expectedTiles e cfg prm g b imgs) = imgs"
  by (simp only: expectedTiles_def expectedTiles_src)

text \<open>
  C1. A run over \<open>n \<ge> 1\<close> images with \<open>c \<ge> 1\<close> columns and \<open>r \<ge> 1\<close> rows
  that is neither cancelled nor fails completes with \<open>\<lceil>n / (c * r)\<rceil>\<close> artifacts;
  the tiles of artifact \<open>b\<close> are the images of the slice from \<open>b * (c * r)\<close> to
  \<open>(b + 1) * (c * r)\<close>, so every group but the last holds \<open>c * r\<close> images and the last
  holds \<open>n mod (c * r)\<close> images, or \<open>c * r\<close> when that remainder is zero. With no image
  the request is turned down and no group is produced.
\<close>

theorem batching:
  assumes c: "cols_input cfg = Some c" "1 \<le> c" and r: "rows_input cfg = Some r" "1 \<le> r"
    and nocancel: "\<forall>p. \<not> cancel_during e p" and enc: "\<forall>j. encode_ok e j"
  shows "(images st = [] \<longrightarrow>
            fst (generate e cfg st) = Rejected
            \<and> generatedBlobs (snd (generate e cfg st)) = generatedBlobs st)
       \<and> (images st \<noteq> [] \<longrightarrow>
            fst (generate e cfg st) = Completed
            \<and> int (length (generatedBlobs (snd (generate e cfg st))))
                = \<lceil>(of_nat (length (images st)) :: rat) / of_int (c * r)\<rceil>
            \<and> (\<forall>b < length (generatedBlobs (snd (generate e cfg st))).
                  \<exists>bl. generatedBlobs (snd (generate e cfg st)) ! b = Some bl
                     \<and> map t_src (tiles (b_page bl))
                         = take (nat (c * r)) (drop (b * nat (c * r)) (images st))
                     \<and> length (tiles (b_page bl))
                         = (if Suc b < length (generatedBlobs (snd (generate e cfg st)))
                            then nat (c * r)
                            else if length (images st) mod nat (c * r) = 0 then nat (c * r)
                            else length (images st) mod nat (c * r))))"
proof (intro conjI impI)
  assume "images st = []"
  then show "fst (generate e cfg st) = Rejected"
    and "generatedBlobs (snd (generate e cfg st)) = generatedBlobs st"
    by (simp_all add: generate_def)
next
  assume ne: "images st \<noteq> []"
  define n where "n = length (images st)"
  define prm where "prm = readParams cfg n"
  define bs where "bs = nat (c * r)"
  have crpos: "0 < c * r" using c r by simp
  have bspos: "0 < bs" using crpos by (simp add: bs_def)
  have jc: "js_or (cols_input cfg) 3 = c" and jr: "js_or (rows_input cfg) 3 = r"
    using c r by (simp_all add: js_or_def)
  have pbs: "p_batchSize prm = c * r" and ptot: "p_totalBatches prm = \<lceil>(of_nat n :: rat) / of_int (c * r)\<rceil>"
    by (simp_all add: prm_def jc jr)
  have q: "\<forall>j. quietGroup e j \<and> encode_ok e j"
    using nocancel enc by (simp add: quiet_all)
  have gen: "generate e cfg st = (Completed,
            (fold (afterGroup e cfg prm) [0..<nat (p_totalBatches prm)] (startState st))
              \<lparr>resultHidden := False, toastVisible := False\<rparr>)"
    unfolding prm_def n_def by (rule generate_quiet [OF ne q])
  show "fst (generate e cfg st) = Completed" by (simp add: gen)
  have blobs: "generatedBlobs (snd (generate e cfg st)) =
      map (\<lambda>j. Some (expectedBlob e cfg prm (images st) (overlayImg st) j)) [0..<nat (p_totalBatches prm)]"
    unfolding prm_def n_def by (rule generate_quiet_blobs [OF ne q])
  have "(0::rat) < of_int (c * r)"
    using crpos by (simp only: of_int_0_less_iff)
  then have "(0::rat) \<le> of_nat n / of_int (c * r)"
    by (intro divide_nonneg_pos) simp_all
  then have "\<lceil>0::rat\<rceil> \<le> \<lceil>(of_nat n :: rat) / of_int (c * r)\<rceil>"
    by (rule ceiling_mono)
  then have tot0: "0 \<le> p_totalBatches prm"
    unfolding ptot by simp
  have len: "length (generatedBlobs (snd (generate e cfg st))) = nat (p_totalBatches prm)"
    by (simp add: blobs)
  show "int (length (generatedBlobs (snd (generate e cfg st))))
          = \<lceil>(of_nat (length (images st)) :: rat) / of_int (c * r)\<rceil>"
    unfolding len using tot0 ptot by (simp add: n_def)
  show "\<forall>b < length (generatedBlobs (snd (generate e cfg st))).
          \<exists>bl. generatedBlobs (snd (generate e cfg st)) ! b = Some bl
             \<and> map t_src (tiles (b_page bl)) = take (nat (c * r)) (drop (b * nat (c * r)) (images st))
             \<and> length (tiles (b_page bl))
                 = (if Suc b < length (generatedBlobs (snd (generate e cfg st)))
                    then nat (c * r)
                    else if length (images st) mod nat (c * r) = 0 then nat (c * r)
                    else length (images st) mod nat (c * r))"
  proof (intro allI impI)
    fix b assume "b < length (generatedBlobs (snd (generate e cfg st)))"
    then have bk: "b < nat (p_totalBatches prm)" by (simp only: len)
    define bl where "bl = expectedBlob e cfg prm (images st) (overlayImg st) b"
    have nth: "generatedBlobs (snd (generate e cfg st)) ! b = Some bl"
      unfolding blobs bl_def using bk by simp
    have batch: "batchImgs prm (images st) b = take bs (drop (b * bs) (images st))"
      using batchImgs_pos [of prm "images st" b] crpos by (simp add: pbs bs_def)
    have src: "map t_src (tiles (b_page bl)) = take bs (drop (b * bs) (images st))"
      by (simp add: bl_def expectedBlob_tiles expectedTiles_src' batch)
    have bk': "int b < \<lceil>(of_nat n :: rat) / of_int (c * r)\<rceil>"
      using bk unfolding ptot by linarith
    have lt: "int b * (c * r) < int n"
      using bk' totalBatches_less [OF crpos, of b n] by blast
    have "int (b * bs) = int b * (c * r)" using crpos by (simp add: bs_def)
    with lt have lt': "b * bs < n" by (metis of_nat_less_iff)
    have sz: "length (tiles (b_page bl)) = min bs (n - b * bs)"
      by (simp add: bl_def expectedBlob_tiles batch n_def)
    have size: "length (tiles (b_page bl)) = (if Suc b < nat (p_totalBatches prm) then bs
                    else if n mod bs = 0 then bs else n mod bs)"
    proof (cases "Suc b < nat (p_totalBatches prm)")
      case True
      then have "int (Suc b) < \<lceil>(of_nat n :: rat) / of_int (c * r)\<rceil>"
        unfolding ptot by linarith
      then have "int (Suc b) * (c * r) < int n"
        using totalBatches_less [OF crpos, of "Suc b" n] by blast
      moreover have "int (Suc b * bs) = int (Suc b) * (c * r)" using crpos by (simp add: bs_def algebra_simps)
      ultimately have "Suc b * bs < n" by (metis of_nat_less_iff)
      then have "bs \<le> n - b * bs" by simp
      with True show ?thesis by (simp add: sz)
    next
      case False
      then have "\<not> int (Suc b) < \<lceil>(of_nat n :: rat) / of_int (c * r)\<rceil>"
        unfolding ptot by linarith
      then have "\<not> int (Suc b) * (c * r) < int n"
        using totalBatches_less [OF crpos, of "Suc b" n] by blast
      moreover have "int (Suc b * bs) = int (Suc b) * (c * r)" using crpos by (simp add: bs_def algebra_simps)
      ultimately have "\<not> Suc b * bs < n" by (metis of_nat_less_iff)
      then have le: "n \<le> Suc b * bs" by simp
      from le have "n - b * bs \<le> bs" by simp
      then have "length (tiles (b_page bl)) = n - b * bs"
        unfolding sz by (rule min_absorb2)
      with last_batch_size [OF bspos lt' le] False show ?thesis
        by (simp only: if_False)
    qed
    show "\<exists>bl. generatedBlobs (snd (generate e cfg st)) ! b = Some bl
             \<and> map t_src (tiles (b_page bl)) = take (nat (c * r)) (drop (b * nat (c * r)) (images st))
             \<and> length (tiles (b_page bl))
                 = (if Suc b < length (generatedBlobs (snd (generate e cfg st)))
                    then nat (c * r)
                    else if length (images st) mod nat (c * r) = 0 then nat (c * r)
                    else length (images st) mod nat (c * r))"
      using nth src size unfolding len bs_def n_def by blast
  qed
qed

theorem batching_witness:
  "(1::int) \<le> 2
   \<and> fst (generate quietEnv (gridConfig 2 2) (idleState (map photo [0..<10]))) = Completed
   \<and> length (generatedBlobs (snd (generate quietEnv (gridConfig 2 2) (idleState (map photo [0..<10]))))) = 3
   \<and> (\<exists>bl. generatedBlobs (snd (generate quietEnv (gridConfig 2 2) (idleState (map photo [0..<10])))) ! 2 = Some bl
          \<and> map t_src (tiles (b_page bl)) = [photo 8, photo 9])"
proof -
  have n: "length (images (idleState (map photo [0..<10]))) = 10"
    and ne: "images (idleState (map photo [0..<10])) \<noteq> []"
    by (simp_all add: idleState_def)
  have d: "drop 8 (map photo [0..<10]) = [photo 8, photo 9]"
    by code_simp
  have b: "images (idleState (map photo [0..<10])) \<noteq> [] \<longrightarrow>
            fst (generate quietEnv (gridConfig 2 2) (idleState (map photo [0..<10]))) = Completed
            \<and> int (length (generatedBlobs (snd (generate quietEnv (gridConfig 2 2) (idleState (map photo [0..<10]))))))
                = \<lceil>(of_nat (length (images (idleState (map photo [0..<10])))) :: rat) / of_int (2 * 2)\<rceil>
            \<and> (\<forall>b < length (generatedBlobs (snd (generate quietEnv (gridConfig 2 2) (idleState (map photo [0..<10]))))).
                  \<exists>bl. generatedBlobs (snd (generate quietEnv (gridConfig 2 2) (idleState (map photo [0..<10])))) ! b = Some bl
                     \<and> map t_src (tiles (b_page bl))
                         = take (nat (2 * 2)) (drop (b * nat (2 * 2)) (images (idleState (map photo [0..<10]))))
                     \<and> length (tiles (b_page bl))
                         = (if Suc b < length (generatedBlobs (snd (generate quietEnv (gridConfig 2 2) (idleState (map photo [0..<10])))))
                            then nat (2 * 2)
                            else if length (images (idleState (map photo [0..<10]))) mod nat (2 * 2) = 0 then nat (2 * 2)
                            else length (images (idleState (map photo [0..<10]))) mod nat (2 * 2)))"
    using batching [of "gridConfig 2 2" 2 2 quietEnv "idleState (map photo [0..<10])"]
    by (simp add: gridConfig_def quietEnv_def)
  have ce: "\<lceil>(of_nat 10 :: rat) / of_int (2 * 2)\<rceil> = 3"
    by (rule ceiling_unique) simp_all
  from b ne have c: "fst (generate quietEnv (gridConfig 2 2) (idleState (map photo [0..<10]))) = Completed"
    and "int (length (generatedBlobs (snd (generate quietEnv (gridConfig 2 2) (idleState (map photo [0..<10])))))) = 3"
    unfolding n ce by blast+
  then have l: "length (generatedBlobs (snd (generate quietEnv (gridConfig 2 2) (idleState (map photo [0..<10]))))) = 3"
    by linarith
  from b ne l have "\<exists>bl. generatedBlobs (snd (generate quietEnv (gridConfig 2 2) (idleState (map photo [0..<10])))) ! 2 = Some bl
          \<and> map t_src (tiles (b_page bl)) = take 4 (drop 8 (images (idleState (map photo [0..<10]))))"
    by (auto dest!: spec [of _ 2])
  then show ?thesis using c l d by (simp add: idleState_def)
qed

subsection \<open>What any run can produce\<close>

lemma suspend_eq: "suspend e p st = st\<lparr>isCancelled := isCancelled st \<or> cancel_during e p\<rparr>"
  by (simp add: suspend_def cancelProcess_def)

lemma drawTiles_frame:
  "overlayImg (snd (drawTiles e cfg prm g b i imgs st)) = overlayImg st"
  "images (snd (drawTiles e cfg prm g b i imgs st)) = images st"
  "generatedBlobs (snd (drawTiles e cfg prm g b i imgs st)) = generatedBlobs st"
  "previews (snd (drawTiles e cfg prm g b i imgs st)) = previews st"
  "alerts (snd (drawTiles e cfg prm g b i imgs st)) = alerts st"
  "toastVisible (snd (drawTiles e cfg prm g b i imgs st)) = toastVisible st"
  "width (canvas (snd (drawTiles e cfg prm g b i imgs st))) = width (canvas st)"
  "height (canvas (snd (drawTiles e cfg prm g b i imgs st))) = height (canvas st)"
  by (induction imgs arbitrary: i st) (simp_all add: drawTile_eq)

lemma runGroup_result:
  assumes "runGroup e cfg prm b st = (r, st')"
  shows "images st' = images st \<and> overlayImg st' = overlayImg st
       \<and> (r \<noteq> None \<and> generatedBlobs st' = generatedBlobs st
          \<or> r = Some TypeError \<and> generatedBlobs st' = generatedBlobs st @ [None]
          \<or> r = None \<and> canvas st' = releasedSurface
              \<and> generatedBlobs st' = generatedBlobs st @
                   [Some (expectedBlob e cfg prm (images st) (overlayImg st) b)])"
proof -
  define st1 where "st1 = suspend e (GroupSleep b) (st\<lparr>toastVisible := True\<rparr>)"
  define g where "g = groupGeometry cfg prm (images st) b"
  define imgs where "imgs = batchImgs prm (images st) b"
  define st2 where "st2 = st1\<lparr>canvas := allocSurface g\<rparr>"
  have s1: "images st1 = images st" "overlayImg st1 = overlayImg st"
    "generatedBlobs st1 = generatedBlobs st"
    by (simp_all add: st1_def suspend_def cancelProcess_def)
  have s2: "images st2 = images st" "overlayImg st2 = overlayImg st"
    "generatedBlobs st2 = generatedBlobs st" "canvas st2 = allocSurface g"
    by (simp_all add: st2_def s1)
  obtain x st3 where dt: "drawTiles e cfg prm g b 0 imgs st2 = (x, st3)"
    by (cases "drawTiles e cfg prm g b 0 imgs st2")
  have rg: "runGroup e cfg prm b st =
     (case x of Some y \<Rightarrow> (Some y, st3) | None \<Rightarrow> finishGroup e prm b st3)"
    using dt by (simp add: runGroup_def Let_def st1_def [symmetric] s1 g_def [symmetric]
        imgs_def [symmetric] st2_def [symmetric] split: option.splits)
  show ?thesis
  proof (cases x)
    case (Some y)
    with rg assms have "r = Some y" "st' = st3" by simp_all
    with drawTiles_Some [OF dt [unfolded Some]] drawTiles_frame(1) [of e cfg prm g b 0 imgs st2] dt s2
    show ?thesis by simp
  next
    case None
    note eq = drawTiles_None [OF dt [unfolded None]]
    have st3: "images st3 = images st" "overlayImg st3 = overlayImg st"
      "generatedBlobs st3 = generatedBlobs st"
      using drawTiles_frame(1-3) [of e cfg prm g b 0 imgs st2] dt s2 by simp_all
    have cv: "canvas st3 = (allocSurface g)\<lparr>tiles := expectedTiles e cfg prm g b imgs\<rparr>"
      by (subst eq) (simp add: s2 expectedTiles_def allocSurface_def)
    from rg None assms have fin: "finishGroup e prm b st3 = (r, st')" by simp
    show ?thesis
    proof (cases "encode_ok e b")
      case False
      with fin st3 cv show ?thesis
        by (cases "overlayImg st")
           (auto simp add: finishGroup_def Let_def suspend_eq)
    next
      case True
      with fin st3 cv show ?thesis
        by (cases "overlayImg st")
           (auto simp add: finishGroup_def Let_def suspend_eq
              expectedBlob_def expectedPage_def g_def imgs_def allocSurface_def)
    qed
  qed
qed

lemma batchLoop_blobs:
  "batchLoop e cfg prm b st = (x, st') \<Longrightarrow>
   images st' = images st \<and> overlayImg st' = overlayImg st
   \<and> (\<forall>bl. Some bl \<in> set (generatedBlobs st') \<longrightarrow>
         Some bl \<in> set (generatedBlobs st)
         \<or> (\<exists>j. int j < p_totalBatches prm
                \<and> bl = expectedBlob e cfg prm (images st) (overlayImg st) j))"
proof (induction e cfg prm b st rule: batchLoop.induct)
  case (1 e cfg prm b st)
  show ?case
  proof (cases "int b < p_totalBatches prm \<and> \<not> isCancelled st")
    case False
    with "1.prems" have "st' = st"
      by (subst (asm) batchLoop.simps) (auto split: if_splits)
    then show ?thesis by simp
  next
    case True
    obtain r st1 where rg: "runGroup e cfg prm b st = (r, st1)"
      by (cases "runGroup e cfg prm b st")
    note res = runGroup_result [OF rg]
    show ?thesis
    proof (cases r)
      case (Some y)
      with "1.prems" True rg have "st' = st1"
        by (subst (asm) batchLoop.simps) simp
      with res Some True show ?thesis by auto
    next
      case None
      with "1.prems" True rg have bl: "batchLoop e cfg prm (Suc b) st1 = (x, st')"
        by (subst (asm) batchLoop.simps) simp
      from True None rg have "(None, st1) = runGroup e cfg prm b st" by simp
      from "1.IH" [OF _ _ this refl bl] True
      have ih: "images st' = images st1 \<and> overlayImg st' = overlayImg st1
        \<and> (\<forall>bl. Some bl \<in> set (generatedBlobs st') \<longrightarrow>
              Some bl \<in> set (generatedBlobs st1)
              \<or> (\<exists>j. int j < p_totalBatches prm
                     \<and> bl = expectedBlob e cfg prm (images st1) (overlayImg st1) j))"
        by simp
      with res None True show ?thesis by auto
    qed
  qed
qed

lemma generate_blobs:
  assumes "Some bl \<in> set (generatedBlobs (snd (generate e cfg st)))" and "images st \<noteq> []"
  shows "\<exists>j. int j < p_totalBatches (readParams cfg (length (images st)))
            \<and> bl = expectedBlob e cfg (readParams cfg (length (images st))) (images st) (overlayImg st) j"
proof -
  define prm where "prm = readParams cfg (length (images st))"
  obtain x st1 where bl: "batchLoop e cfg prm 0 (startState st) = (x, st1)"
    by (cases "batchLoop e cfg prm 0 (startState st)")
  have "generatedBlobs (snd (generate e cfg st)) = generatedBlobs st1"
    using assms(2) bl
    by (cases x) (simp_all add: generate_def Let_def prm_def [symmetric])
  with assms(1) batchLoop_blobs [OF bl] show ?thesis
    by (simp add: prm_def)
qed

subsection \<open>Geometry of the pages (C4)\<close>



lemma computeGeometry_sel:
  "cellW (computeGeometry cols gap ratio len) =
     (if cols * 1500 > MAX_CANVAS_DIM
      then \<lfloor>(of_int (MAX_CANVAS_DIM - cols * gap) :: rat) / of_int cols\<rfloor> else 1500)"
  "cellH (computeGeometry cols gap ratio len) =
     \<lfloor>js_div (of_int (cellW (computeGeometry cols gap ratio len))) ratio\<rfloor>"
  "realRows (computeGeometry cols gap ratio len) = \<lceil>(of_nat len :: rat) / of_int cols\<rceil>"
  "pageW (computeGeometry cols gap ratio len) =
     cols * cellW (computeGeometry cols gap ratio len) + (cols - 1) * gap"
  "pageH (computeGeometry cols gap ratio len) =
     realRows (computeGeometry cols gap ratio len) * cellH (computeGeometry cols gap ratio len)
       + (realRows (computeGeometry cols gap ratio len) - 1) * gap"
  by (simp_all add: computeGeometry_def Let_def)

lemma expectedBlob_page:
  "width (b_page (expectedBlob e cfg prm imgs ov b))
     = canvasDim 300 (pageW (groupGeometry cfg prm imgs b))"
  "height (b_page (expectedBlob e cfg prm imgs ov b))
     = canvasDim 150 (pageH (groupGeometry cfg prm imgs b))"
  "background (b_page (expectedBlob e cfg prm imgs ov b))"
  "overlay (b_page (expectedBlob e cfg prm imgs ov b)) = ov"
  by (simp_all add: expectedBlob_def makeBlob_def expectedPage_def allocSurface_def)


lemma quietEnv_quiet: "quietGroup quietEnv j \<and> encode_ok quietEnv j"
  by (simp add: quietGroup_def arrives_def quietEnv_def)





subsection \<open>The bound on the surface (C5)\<close>

lemma clamped_width:
  fixes c g :: int
  assumes "1 \<le> c" "0 \<le> g"
  shows "c * \<lfloor>(of_int (MAX_CANVAS_DIM - c * g) :: rat) / of_int c\<rfloor> + (c - 1) * g \<le> MAX_CANVAS_DIM"
proof -
  have "\<lfloor>(of_int (MAX_CANVAS_DIM - c * g) :: rat) / of_int c\<rfloor> = (MAX_CANVAS_DIM - c * g) div c"
    by (rule floor_divide_of_int_eq)
  moreover have "c * ((MAX_CANVAS_DIM - c * g) div c) \<le> MAX_CANVAS_DIM - c * g"
    using assms(1) mult_div_mod_eq [of c "MAX_CANVAS_DIM - c * g"]
      pos_mod_sign [of c "MAX_CANVAS_DIM - c * g"] by linarith
  ultimately have "c * \<lfloor>(of_int (MAX_CANVAS_DIM - c * g) :: rat) / of_int c\<rfloor> + (c - 1) * g
      \<le> MAX_CANVAS_DIM - c * g + (c - 1) * g" by simp
  also have "\<dots> = MAX_CANVAS_DIM - g" by (simp add: algebra_simps)
  also have "\<dots> \<le> MAX_CANVAS_DIM" using assms(2) by simp
  finally show ?thesis .
qed

lemma pageW_bound:
  assumes "1 \<le> c" "0 \<le> g" "c * 1500 > MAX_CANVAS_DIM \<or> g = 0"
  shows "pageW (computeGeometry c g a k) \<le> MAX_CANVAS_DIM"
proof (cases "c * 1500 > MAX_CANVAS_DIM")
  case True
  then show ?thesis
    using clamped_width [OF assms(1,2)] by (simp add: computeGeometry_sel)
next
  case False
  with assms(3) have "g = 0" by simp
  with False show ?thesis by (simp add: computeGeometry_sel)
qed

text \<open>
  C5, as amended. With \<open>c \<ge> 1\<close> columns and a gap \<open>g \<ge> 0\<close>, the page width of every
  group, and of every artifact, is at most \<open>MAX_CANVAS_DIM = 8192\<close> when the cell width
  is clamped (\<open>c * 1500 > 8192\<close>) or the gap is zero. Nothing bounds the page height.
\<close>

theorem surface_width_bound:
  assumes c: "cols_input cfg = Some c" "1 \<le> c" and g: "gap_input cfg = Some g" "0 \<le> g"
    and w: "c * 1500 > MAX_CANVAS_DIM \<or> g = 0"
  shows "pageW (groupGeometry cfg (readParams cfg (length (images st))) (images st) b) \<le> MAX_CANVAS_DIM
       \<and> (images st \<noteq> [] \<and> Some bl \<in> set (generatedBlobs (snd (generate e cfg st))) \<longrightarrow>
            width (b_page bl) \<le> MAX_CANVAS_DIM)"
proof -
  define prm where "prm = readParams cfg (length (images st))"
  have jc: "p_cols prm = c" and jg: "p_gap prm = g"
    using c g by (auto simp add: prm_def js_or_def)
  have geo: "pageW (groupGeometry cfg prm (images st) j) \<le> MAX_CANVAS_DIM" for j
    unfolding groupGeometry_def jc jg by (rule pageW_bound [OF c(2) g(2) w])
  have "width (b_page bl) \<le> MAX_CANVAS_DIM"
    if "images st \<noteq> []" "Some bl \<in> set (generatedBlobs (snd (generate e cfg st)))"
  proof -
    from generate_blobs [OF that(2,1)] obtain j
      where "bl = expectedBlob e cfg prm (images st) (overlayImg st) j"
      unfolding prm_def by blast
    then show ?thesis using geo [of j]
      by (simp add: expectedBlob_page canvasDim_le MAX_CANVAS_DIM_def)
  qed
  with geo [of b] show ?thesis unfolding prm_def by blast
qed

theorem surface_width_bound_witness:
  "(1::int) \<le> 6 \<and> (0::int) \<le> 10 \<and> 6 * 1500 > MAX_CANVAS_DIM
   \<and> pageW (groupGeometry wideConfig (readParams wideConfig 7) (map photo [0..<7]) 0) \<le> MAX_CANVAS_DIM"
  using surface_width_bound [where cfg = wideConfig and c = 6 and g = 10
      and st = "idleState (map photo [0..<7])" and b = 0]
  by (simp add: wideConfig_def idleState_def MAX_CANVAS_DIM_def)

theorem surface_height_counterexample:
  "\<exists>bl. Some bl \<in> set (generatedBlobs (snd (generate quietEnv (gridConfig 1 10) (idleState (map photo [0..<10])))))
      \<and> width (b_page bl) = 1500 \<and> height (b_page bl) = 15000
      \<and> \<not> height (b_page bl) \<le> MAX_CANVAS_DIM"
proof -
  define st where "st = idleState (map photo [0..<10])"
  define prm where "prm = readParams (gridConfig 1 10) (length (images st))"
  define bl where "bl = expectedBlob quietEnv (gridConfig 1 10) prm (images st) (overlayImg st) 0"
  have ne: "images st \<noteq> []" and n: "length (images st) = 10"
    by (simp_all add: st_def idleState_def)
  have bs: "p_batchSize prm = 10" and pc: "p_cols prm = 1" and pg: "p_gap prm = 0"
    by (simp_all add: prm_def gridConfig_def js_or_def)
  have tot: "p_totalBatches prm = 1"
    by (simp add: prm_def n gridConfig_def js_or_def)
  have blobs: "generatedBlobs (snd (generate quietEnv (gridConfig 1 10) st)) = [Some bl]"
    using generate_quiet_blobs [OF ne, of quietEnv "gridConfig 1 10"] quietEnv_quiet
    by (simp add: prm_def [symmetric] tot bl_def)
  have k: "length (batchImgs prm (images st) 0) = 10"
    using batchImgs_pos [of prm "images st" 0] by (simp add: bs n)
  have a: "getAspectRatio (gridConfig 1 10) = 1"
    by (simp add: getAspectRatio_def gridConfig_def round_double_one)
  have "width (b_page bl) = 1500 \<and> height (b_page bl) = 15000"
    by (simp add: bl_def expectedBlob_page groupGeometry_def pc pg k a computeGeometry_sel
        MAX_CANVAS_DIM_def js_div_1500_1 canvasDim_def)
  with blobs show ?thesis unfolding st_def by (simp add: MAX_CANVAS_DIM_def)
qed

subsection \<open>Drawing a decoded image (C7)\<close>

lemma cover_wide:
  fixes cw ch :: int and iw ih :: nat
  assumes pos: "0 < cw" "0 < ch" "0 < iw" "0 < ih"
    and wide: "(of_nat iw :: rat) / of_nat ih > of_int cw / of_int ch"
  shows "coverPlacement x y cw ch iw ih =
           Some (Rect (of_int x - (of_int ch * (of_nat iw / of_nat ih) - of_int cw) / 2) (of_int y)
                   (of_int ch * (of_nat iw / of_nat ih)) (of_int ch))"
    and "(of_int cw :: rat) < of_int ch * (of_nat iw / of_nat ih)"
proof -
  show "coverPlacement x y cw ch iw ih =
           Some (Rect (of_int x - (of_int ch * (of_nat iw / of_nat ih) - of_int cw) / 2) (of_int y)
                   (of_int ch * (of_nat iw / of_nat ih)) (of_int ch))"
    using pos wide by (simp add: coverPlacement_def Let_def)
  have "(0::rat) < of_int ch" using pos by simp
  with wide show "(of_int cw :: rat) < of_int ch * (of_nat iw / of_nat ih)"
    by (simp add: pos_divide_less_eq mult.commute)
qed

lemma cover_tall:
  fixes cw ch :: int and iw ih :: nat
  assumes pos: "0 < cw" "0 < ch" "0 < iw" "0 < ih"
    and tall: "\<not> (of_nat iw :: rat) / of_nat ih > of_int cw / of_int ch"
  shows "coverPlacement x y cw ch iw ih =
           Some (Rect (of_int x) (of_int y - (of_int cw / (of_nat iw / of_nat ih) - of_int ch) / 2)
                   (of_int cw) (of_int cw / (of_nat iw / of_nat ih)))"
    and "(of_int ch :: rat) \<le> of_int cw / (of_nat iw / of_nat ih)"
proof -
  have ir: "(0::rat) < of_nat iw / of_nat ih" using pos by simp
  show "coverPlacement x y cw ch iw ih =
           Some (Rect (of_int x) (of_int y - (of_int cw / (of_nat iw / of_nat ih) - of_int ch) / 2)
                   (of_int cw) (of_int cw / (of_nat iw / of_nat ih)))"
    using pos tall ir by (simp add: coverPlacement_def Let_def)
  have chp: "(0::rat) < of_int ch" using pos by simp
  define q where "q = (of_nat iw :: rat) / of_nat ih"
  from tall have "q \<le> of_int cw / of_int ch" by (simp add: q_def)
  then have "q * of_int ch \<le> of_int cw"
    using chp by (simp add: pos_le_divide_eq)
  moreover have "0 < q" using ir by (simp add: q_def)
  ultimately have "(of_int ch :: rat) \<le> of_int cw / q"
    by (simp add: pos_le_divide_eq mult.commute)
  then show "(of_int ch :: rat) \<le> of_int cw / (of_nat iw / of_nat ih)"
    by (simp only: q_def)
qed

text \<open>
  C7. A decoded image of natural size \<open>iw\<close> by \<open>ih\<close> is drawn into its cell of width
  \<open>cellW\<close> and height \<open>cellH\<close> (all four positive) as follows. If the ratio of the
  image exceeds the ratio of the cell, it is scaled to the height of the cell (drawn
  width \<open>cellH * iw / ih\<close>) and centred horizontally: the same overflow is cut on the
  left and on the right. Otherwise it is scaled to the width of the cell and centred
  vertically. The clip path is the rectangle of the cell, so the tile paints the points
  of its cell and no other point.
\<close>

theorem cover_draw:
  assumes dec: "decode_result e b i = Some (iw, ih)"
    and pos: "0 < iw" "0 < ih" "0 < cellW g" "0 < cellH g"
  shows "\<exists>d. t_content (renderTile e cfg prm g b i img)
               = Drawn (cellRect g (t_x (renderTile e cfg prm g b i img))
                          (t_y (renderTile e cfg prm g b i img))) iw ih (Some d)
          \<and> (if (of_nat iw :: rat) / of_nat ih > of_int (cellW g) / of_int (cellH g)
              then r_h d = of_int (cellH g)
                 \<and> r_w d = of_int (cellH g) * (of_nat iw / of_nat ih)
                 \<and> r_y d = of_int (t_y (renderTile e cfg prm g b i img))
                 \<and> of_int (t_x (renderTile e cfg prm g b i img)) - r_x d
                     = (r_x d + r_w d)
                       - (of_int (t_x (renderTile e cfg prm g b i img)) + of_int (cellW g))
                 \<and> 0 < of_int (t_x (renderTile e cfg prm g b i img)) - r_x d
              else r_w d = of_int (cellW g)
                 \<and> r_h d = of_int (cellW g) / (of_nat iw / of_nat ih)
                 \<and> r_x d = of_int (t_x (renderTile e cfg prm g b i img))
                 \<and> of_int (t_y (renderTile e cfg prm g b i img)) - r_y d
                     = (r_y d + r_h d)
                       - (of_int (t_y (renderTile e cfg prm g b i img)) + of_int (cellH g))
                 \<and> 0 \<le> of_int (t_y (renderTile e cfg prm g b i img)) - r_y d)
          \<and> r_w d / r_h d = of_nat iw / of_nat ih
          \<and> (\<forall>p. painted (t_content (renderTile e cfg prm g b i img)) p
                 \<longleftrightarrow> inRect (cellRect g (t_x (renderTile e cfg prm g b i img))
                              (t_y (renderTile e cfg prm g b i img))) p)"
proof -
  define t where "t = renderTile e cfg prm g b i img"
  define x where "x = t_x t"
  define y where "y = t_y t"
  define cw where "cw = cellW g"
  define ch where "ch = cellH g"
  define ir where "ir = (of_nat iw :: rat) / of_nat ih"
  have irp: "0 < ir" using pos by (simp add: ir_def)
  have cwp: "(0::rat) < of_int cw" and chp: "(0::rat) < of_int ch"
    using pos by (simp_all add: cw_def ch_def)
  have tc: "t_content t = Drawn (cellRect g x y) iw ih (coverPlacement x y cw ch iw ih)"
    using dec by (simp add: t_def x_def y_def cw_def ch_def renderTile_def Let_def)
  have cell: "cellRect g x y = Rect (of_int x) (of_int y) (of_int cw) (of_int ch)"
    by (simp add: cellRect_def cw_def ch_def)
  show ?thesis
  proof (cases "ir > of_int cw / of_int ch")
    case True
    define d where "d = Rect (of_int x - (of_int ch * ir - of_int cw) / 2) (of_int y)
                   (of_int ch * ir) (of_int ch)"
    from True pos have cp: "coverPlacement x y cw ch iw ih = Some d"
      and big: "(of_int cw :: rat) < of_int ch * ir"
      using cover_wide [where cw = cw and ch = ch and iw = iw and ih = ih] by (simp_all add: ir_def cw_def ch_def d_def)
    have ratio: "r_w d / r_h d = ir" using chp by (simp add: d_def)
    have paint: "painted (t_content t) p \<longleftrightarrow> inRect (cellRect g x y) p" for p
      using big by (auto simp add: tc cp painted_def cell inRect_def d_def field_simps)
    have "t_content t = Drawn (cellRect g x y) iw ih (Some d)
        \<and> r_h d = of_int ch \<and> r_w d = of_int ch * ir \<and> r_y d = of_int y
        \<and> of_int x - r_x d = (r_x d + r_w d) - (of_int x + of_int cw)
        \<and> 0 < of_int x - r_x d"
      using big by (simp add: tc cp d_def field_simps)
    with True ratio paint show ?thesis
      unfolding t_def [symmetric] x_def [symmetric] y_def [symmetric] cw_def [symmetric]
        ch_def [symmetric] ir_def [symmetric]
      by (intro exI [of _ d]) simp
  next
    case False
    define dh where "dh = (of_int cw :: rat) / ir"
    define d where "d = Rect (of_int x) (of_int y - (dh - of_int ch) / 2) (of_int cw) dh"
    from False pos have cp: "coverPlacement x y cw ch iw ih = Some d"
      and big: "(of_int ch :: rat) \<le> dh"
      using cover_tall [where cw = cw and ch = ch and iw = iw and ih = ih]
      by (simp_all add: ir_def cw_def ch_def d_def dh_def)
    have ratio: "r_w d / r_h d = ir" using cwp irp by (simp add: d_def dh_def)
    have paint: "painted (t_content t) p \<longleftrightarrow> inRect (cellRect g x y) p" for p
      using big by (auto simp add: tc cp painted_def cell inRect_def d_def field_simps)
    have "t_content t = Drawn (cellRect g x y) iw ih (Some d)
        \<and> r_w d = of_int cw \<and> r_h d = dh \<and> r_x d = of_int x
        \<and> of_int y - r_y d = (r_y d + r_h d) - (of_int y + of_int ch)
        \<and> 0 \<le> of_int y - r_y d"
      using big by (simp add: tc cp d_def field_simps)
    then have "t_content t = Drawn (cellRect g x y) iw ih (Some d)
        \<and> r_w d = of_int cw \<and> r_h d = of_int cw / ir \<and> r_x d = of_int x
        \<and> of_int y - r_y d = (r_y d + r_h d) - (of_int y + of_int ch)
        \<and> 0 \<le> of_int y - r_y d"
      unfolding dh_def .
    with False ratio paint show ?thesis
      unfolding t_def [symmetric] x_def [symmetric] y_def [symmetric] cw_def [symmetric]
        ch_def [symmetric] ir_def [symmetric]
      by (intro exI [of _ d]) simp
  qed
qed

theorem cover_draw_witness:
  "(0::nat) < 800 \<and> (0::nat) < 600
   \<and> (\<exists>d. t_content (renderTile quietEnv (gridConfig 2 2) (readParams (gridConfig 2 2) 4)
                      (computeGeometry 2 0 1 4) 0 1 (photo 1))
               = Drawn (Rect 1500 0 1500 1500) 800 600 (Some d)
          \<and> r_x d = 1250 \<and> r_y d = 0 \<and> r_w d = 2000 \<and> r_h d = 1500)"
proof -
  define g where "g = computeGeometry 2 0 1 4"
  define t where "t = renderTile quietEnv (gridConfig 2 2) (readParams (gridConfig 2 2) 4) g 0 1 (photo 1)"
  have cw: "cellW g = 1500" and ch: "cellH g = 1500"
    by (simp_all add: g_def computeGeometry_sel MAX_CANVAS_DIM_def js_div_1500_1)
  have fl: "\<lfloor>(1::rat) / 2\<rfloor> = 0" by (rule floor_unique) simp_all
  have xy: "t_x t = 1500" "t_y t = 0"
    by (simp_all add: t_def renderTile_def Let_def gridConfig_def js_or_def js_rem_def cw ch fl)
  have dec: "decode_result quietEnv 0 1 = Some (800, 600)" by (simp add: quietEnv_def)
  from cover_draw [OF dec, of g "gridConfig 2 2" "readParams (gridConfig 2 2) 4" "photo 1"]
  obtain d where d: "t_content t = Drawn (cellRect g (t_x t) (t_y t)) 800 600 (Some d)"
    and w: "r_h d = 1500 \<and> r_w d = 2000 \<and> r_y d = 0 \<and> 1500 - r_x d = (r_x d + r_w d) - 3000"
    unfolding t_def [symmetric] by (auto simp add: cw ch xy)
  from w have "r_x d = 1250" by simp
  with d w show ?thesis
    unfolding t_def [symmetric] g_def [symmetric]
    by (auto simp add: cellRect_def cw ch xy)
qed

subsection \<open>Decode failures (C6)\<close>

lemma expectedTiles_nth:
  "i < length imgs \<Longrightarrow>
   expectedTiles e cfg prm g b imgs ! i = renderTile e cfg prm g b i (imgs ! i)"
  by (simp add: expectedTiles_def nth_enumerate_eq)

lemma decode_log_mem:
  "DecodeFailed b i \<in> set (concat (map (\<lambda>(j, x). if decode_result e b j = None then [DecodeFailed b j] else [])
       (enumerate n imgs)))
   \<longleftrightarrow> n \<le> i \<and> i < n + length imgs \<and> decode_result e b i = None"
proof (induction imgs arbitrary: n)
  case Nil
  show ?case by simp
next
  case (Cons x xs)
  show ?case using Cons.IH [of "Suc n"] by (cases "i = n") auto
qed

lemma expectedLog_mem:
  "DecodeFailed b i \<in> set (expectedLog e b imgs) \<longleftrightarrow> i < length imgs \<and> decode_result e b i = None"
  unfolding expectedLog_def decode_log_mem by simp

lemma renderTile_content:
  "t_content (renderTile e cfg prm g b i x) =
     (case decode_result e b i of
        None \<Rightarrow> Placeholder (cellRect g (t_x (renderTile e cfg prm g b i x)) (t_y (renderTile e cfg prm g b i x)))
                  (of_int (t_x (renderTile e cfg prm g b i x)) + of_int (cellW g) / 2 - 20)
                  (of_int (t_y (renderTile e cfg prm g b i x)) + of_int (cellH g) / 2)
      | Some (iw, ih) \<Rightarrow>
          Drawn (cellRect g (t_x (renderTile e cfg prm g b i x)) (t_y (renderTile e cfg prm g b i x))) iw ih
            (coverPlacement (t_x (renderTile e cfg prm g b i x)) (t_y (renderTile e cfg prm g b i x))
               (cellW g) (cellH g) iw ih))"
  by (simp add: renderTile_def Let_def split: option.splits)

text \<open>
  C6. In a run that is neither cancelled nor fails to encode, whatever the decodes do,
  the run completes with exactly \<open>totalBatches\<close> artifacts. In each of them every image
  of the group has its tile: where the decode failed, the cell is filled with the
  placeholder and the error glyph and the failure is written to the console; where it
  succeeded, the image is drawn under the clip path of its cell. No decode failure ends
  the group or the run.
\<close>

theorem decode_failure_isolated:
  assumes ne: "images st \<noteq> []"
    and nocancel: "\<forall>p. \<not> cancel_during e p" and enc: "\<forall>j. encode_ok e j"
  shows "fst (generate e cfg st) = Completed
       \<and> length (generatedBlobs (snd (generate e cfg st)))
           = nat (p_totalBatches (readParams cfg (length (images st))))
       \<and> (\<forall>b < length (generatedBlobs (snd (generate e cfg st))).
            \<exists>bl. generatedBlobs (snd (generate e cfg st)) ! b = Some bl
               \<and> map t_src (tiles (b_page bl))
                   = batchImgs (readParams cfg (length (images st))) (images st) b
               \<and> (\<forall>i < length (tiles (b_page bl)).
                    (case decode_result e b i of
                       None \<Rightarrow>
                         t_content (tiles (b_page bl) ! i)
                           = Placeholder
                               (cellRect (groupGeometry cfg (readParams cfg (length (images st))) (images st) b)
                                  (t_x (tiles (b_page bl) ! i)) (t_y (tiles (b_page bl) ! i)))
                               (of_int (t_x (tiles (b_page bl) ! i))
                                  + of_int (cellW (groupGeometry cfg (readParams cfg (length (images st))) (images st) b)) / 2
                                  - 20)
                               (of_int (t_y (tiles (b_page bl) ! i))
                                  + of_int (cellH (groupGeometry cfg (readParams cfg (length (images st))) (images st) b)) / 2)
                         \<and> DecodeFailed b i \<in> set (console (snd (generate e cfg st)))
                     | Some (iw, ih) \<Rightarrow>
                         t_content (tiles (b_page bl) ! i)
                           = Drawn
                               (cellRect (groupGeometry cfg (readParams cfg (length (images st))) (images st) b)
                                  (t_x (tiles (b_page bl) ! i)) (t_y (tiles (b_page bl) ! i)))
                               iw ih
                               (coverPlacement (t_x (tiles (b_page bl) ! i)) (t_y (tiles (b_page bl) ! i))
                                  (cellW (groupGeometry cfg (readParams cfg (length (images st))) (images st) b))
                                  (cellH (groupGeometry cfg (readParams cfg (length (images st))) (images st) b))
                                  iw ih))))"
proof -
  define prm where "prm = readParams cfg (length (images st))"
  define k where "k = nat (p_totalBatches prm)"
  define res where "res = generate e cfg st"
  have q: "\<forall>j. quietGroup e j \<and> encode_ok e j"
    using nocancel enc by (simp add: quiet_all)
  have gen: "res = (Completed,
            (fold (afterGroup e cfg prm) [0..<k] (startState st))
              \<lparr>resultHidden := False, toastVisible := False\<rparr>)"
    unfolding prm_def k_def res_def by (rule generate_quiet [OF ne q])
  have blobs: "generatedBlobs (snd res) =
      map (\<lambda>j. Some (expectedBlob e cfg prm (images st) (overlayImg st) j)) [0..<k]"
    by (simp add: gen afterGroups_blobs)
  have cons: "console (snd res) =
      console st @ concat (map (\<lambda>j. expectedLog e j (batchImgs prm (images st) j)) [0..<k])"
    by (simp add: gen afterGroups_console)
  have len: "length (generatedBlobs (snd res)) = k" by (simp add: blobs)
  have per: "\<exists>bl. generatedBlobs (snd res) ! b = Some bl
               \<and> map t_src (tiles (b_page bl)) = batchImgs prm (images st) b
               \<and> (\<forall>i < length (tiles (b_page bl)).
                    (case decode_result e b i of
                       None \<Rightarrow>
                         t_content (tiles (b_page bl) ! i)
                           = Placeholder
                               (cellRect (groupGeometry cfg prm (images st) b)
                                  (t_x (tiles (b_page bl) ! i)) (t_y (tiles (b_page bl) ! i)))
                               (of_int (t_x (tiles (b_page bl) ! i))
                                  + of_int (cellW (groupGeometry cfg prm (images st) b)) / 2 - 20)
                               (of_int (t_y (tiles (b_page bl) ! i))
                                  + of_int (cellH (groupGeometry cfg prm (images st) b)) / 2)
                         \<and> DecodeFailed b i \<in> set (console (snd res))
                     | Some (iw, ih) \<Rightarrow>
                         t_content (tiles (b_page bl) ! i)
                           = Drawn
                               (cellRect (groupGeometry cfg prm (images st) b)
                                  (t_x (tiles (b_page bl) ! i)) (t_y (tiles (b_page bl) ! i)))
                               iw ih
                               (coverPlacement (t_x (tiles (b_page bl) ! i)) (t_y (tiles (b_page bl) ! i))
                                  (cellW (groupGeometry cfg prm (images st) b))
                                  (cellH (groupGeometry cfg prm (images st) b))
                                  iw ih)))"
    if bk: "b < k" for b
  proof -
    define bl where "bl = expectedBlob e cfg prm (images st) (overlayImg st) b"
    define G where "G = groupGeometry cfg prm (images st) b"
    define imgs where "imgs = batchImgs prm (images st) b"
    have nth: "generatedBlobs (snd res) ! b = Some bl"
      unfolding blobs bl_def using bk by simp
    have tl: "tiles (b_page bl) = expectedTiles e cfg prm G b imgs"
      by (simp add: bl_def expectedBlob_tiles G_def imgs_def)
    have src: "map t_src (tiles (b_page bl)) = imgs"
      by (simp add: tl expectedTiles_src')
    have tile: "(case decode_result e b i of
                       None \<Rightarrow>
                         t_content (tiles (b_page bl) ! i)
                           = Placeholder
                               (cellRect G (t_x (tiles (b_page bl) ! i)) (t_y (tiles (b_page bl) ! i)))
                               (of_int (t_x (tiles (b_page bl) ! i)) + of_int (cellW G) / 2 - 20)
                               (of_int (t_y (tiles (b_page bl) ! i)) + of_int (cellH G) / 2)
                         \<and> DecodeFailed b i \<in> set (console (snd res))
                     | Some (iw, ih) \<Rightarrow>
                         t_content (tiles (b_page bl) ! i)
                           = Drawn
                               (cellRect G (t_x (tiles (b_page bl) ! i)) (t_y (tiles (b_page bl) ! i)))
                               iw ih
                               (coverPlacement (t_x (tiles (b_page bl) ! i)) (t_y (tiles (b_page bl) ! i))
                                  (cellW G) (cellH G) iw ih))"
      if i: "i < length (tiles (b_page bl))" for i
    proof -
      from i have il: "i < length imgs" by (simp add: tl)
      have t: "tiles (b_page bl) ! i = renderTile e cfg prm G b i (imgs ! i)"
        unfolding tl by (rule expectedTiles_nth [OF il])
      have logged: "DecodeFailed b i \<in> set (console (snd res))" if "decode_result e b i = None"
        unfolding cons using that il bk expectedLog_mem [of b i e imgs]
        by (auto simp add: imgs_def)
      show ?thesis
        unfolding t using renderTile_content [of e cfg prm G b i "imgs ! i"] logged
        by (auto split: option.splits)
    qed
    from nth src tile show ?thesis
      unfolding G_def imgs_def by blast
  qed
  show ?thesis
    using gen len per
    unfolding res_def [symmetric] prm_def [symmetric] k_def [symmetric]
    by simp
qed

theorem decode_failure_isolated_witness:
  "fst (generate flakyEnv (gridConfig 2 1) (idleState [photo 0, photo 1, photo 2])) = Completed
   \<and> length (generatedBlobs (snd (generate flakyEnv (gridConfig 2 1) (idleState [photo 0, photo 1, photo 2])))) = 2
   \<and> DecodeFailed 0 1 \<in> set (console (snd (generate flakyEnv (gridConfig 2 1) (idleState [photo 0, photo 1, photo 2]))))
   \<and> (\<exists>bl r0 d r1 gx gy. generatedBlobs (snd (generate flakyEnv (gridConfig 2 1) (idleState [photo 0, photo 1, photo 2]))) ! 0 = Some bl
         \<and> map t_src (tiles (b_page bl)) = [photo 0, photo 1]
         \<and> t_content (tiles (b_page bl) ! 0) = Drawn r0 800 600 d
         \<and> t_content (tiles (b_page bl) ! 1) = Placeholder r1 gx gy)"
proof -
  define st where "st = idleState [photo 0, photo 1, photo 2]"
  define cfg where "cfg = gridConfig 2 1"
  define prm where "prm = readParams cfg (length (images st))"
  define res where "res = generate flakyEnv cfg st"
  have ne: "images st \<noteq> []" and n: "length (images st) = 3"
    and im: "images st = [photo 0, photo 1, photo 2]"
    by (simp_all add: st_def idleState_def)
  have bs: "p_batchSize prm = 2"
    by (simp add: prm_def cfg_def gridConfig_def js_or_def)
  have "\<lceil>(of_nat 3 :: rat) / of_int (2 * 1)\<rceil> = 2"
    by (rule ceiling_unique) simp_all
  then have tot: "p_totalBatches prm = 2"
    by (simp add: prm_def n cfg_def gridConfig_def js_or_def)
  have batch: "batchImgs prm (images st) 0 = [photo 0, photo 1]"
    using batchImgs_pos [of prm "images st" 0] by (simp add: bs im)
  have d0: "decode_result flakyEnv 0 0 = Some (800, 600)" and d1: "decode_result flakyEnv 0 1 = None"
    by (simp_all add: flakyEnv_def)
  note th = decode_failure_isolated [OF ne, of flakyEnv cfg, folded prm_def res_def]
  have hyp: "\<forall>p. \<not> cancel_during flakyEnv p" "\<forall>j. encode_ok flakyEnv j"
    by (simp_all add: flakyEnv_def)
  from th [OF hyp] have c: "fst res = Completed" and l: "length (generatedBlobs (snd res)) = 2"
    by (simp_all add: tot)
  have lt: "0 < length (generatedBlobs (snd res))" by (simp add: l)
  note ex = th [OF hyp, THEN conjunct2, THEN conjunct2, rule_format, OF lt]
  then obtain bl where bl: "generatedBlobs (snd res) ! 0 = Some bl"
    and src0: "map t_src (tiles (b_page bl)) = batchImgs prm (images st) 0"
    and tl: "\<And>i. i < length (tiles (b_page bl)) \<Longrightarrow>
               (case decode_result flakyEnv 0 i of
                  None \<Rightarrow>
                    t_content (tiles (b_page bl) ! i)
                      = Placeholder
                          (cellRect (groupGeometry cfg prm (images st) 0)
                             (t_x (tiles (b_page bl) ! i)) (t_y (tiles (b_page bl) ! i)))
                          (of_int (t_x (tiles (b_page bl) ! i))
                             + of_int (cellW (groupGeometry cfg prm (images st) 0)) / 2 - 20)
                          (of_int (t_y (tiles (b_page bl) ! i))
                             + of_int (cellH (groupGeometry cfg prm (images st) 0)) / 2)
                    \<and> DecodeFailed 0 i \<in> set (console (snd res))
                | Some (iw, ih) \<Rightarrow>
                    t_content (tiles (b_page bl) ! i)
                      = Drawn
                          (cellRect (groupGeometry cfg prm (images st) 0)
                             (t_x (tiles (b_page bl) ! i)) (t_y (tiles (b_page bl) ! i)))
                          iw ih
                          (coverPlacement (t_x (tiles (b_page bl) ! i)) (t_y (tiles (b_page bl) ! i))
                             (cellW (groupGeometry cfg prm (images st) 0))
                             (cellH (groupGeometry cfg prm (images st) 0))
                             iw ih))"
    by blast
  from src0 have src: "map t_src (tiles (b_page bl)) = [photo 0, photo 1]"
    by (simp only: batch)
  from src have len: "length (tiles (b_page bl)) = 2"
    by (metis length_map length_Cons list.size(3) One_nat_def Suc_1)
  from tl [of 0] tl [of 1] len d0 d1
  obtain r0 d r1 gx gy
    where "t_content (tiles (b_page bl) ! 0) = Drawn r0 800 600 d"
      and "t_content (tiles (b_page bl) ! 1) = Placeholder r1 gx gy"
      and "DecodeFailed 0 1 \<in> set (console (snd res))"
    by simp
  with c l bl src show ?thesis
    unfolding res_def cfg_def st_def by (intro conjI exI) assumption+
qed

subsection \<open>Cancellation\<close>

lemma runGroup_throws:
  assumes c: "cancel_during e (GroupSleep b)
              \<or> (\<exists>j. arrives e b j \<and> Suc j < length (batchImgs prm (images st) b))"
    and ne: "batchImgs prm (images st) b \<noteq> []"
  shows "\<exists>st'. runGroup e cfg prm b st = (Some CancelledError, st')
           \<and> isCancelled st' \<and> generatedBlobs st' = generatedBlobs st
           \<and> previews st' = previews st \<and> alerts st' = alerts st
           \<and> width (canvas st') = canvasDim 300 (pageW (groupGeometry cfg prm (images st) b))
           \<and> height (canvas st') = canvasDim 150 (pageH (groupGeometry cfg prm (images st) b))"
proof -
  define g where "g = groupGeometry cfg prm (images st) b"
  define imgs where "imgs = batchImgs prm (images st) b"
  define st2 where "st2 = (suspend e (GroupSleep b) (st\<lparr>toastVisible := True\<rparr>))\<lparr>canvas := allocSurface g\<rparr>"
  have s2: "generatedBlobs st2 = generatedBlobs st" "previews st2 = previews st"
    "alerts st2 = alerts st" "width (canvas st2) = canvasDim 300 (pageW g)"
    "height (canvas st2) = canvasDim 150 (pageH g)"
    "isCancelled st2 = (isCancelled st \<or> cancel_during e (GroupSleep b))"
    by (simp_all add: st2_def suspend_eq allocSurface_def)
  obtain x st3 where dt: "drawTiles e cfg prm g b 0 imgs st2 = (x, st3)"
    by (cases "drawTiles e cfg prm g b 0 imgs st2")
  have x: "x = Some CancelledError"
  proof (cases "cancel_during e (GroupSleep b)")
    case True
    then have "isCancelled st2" by (simp add: s2)
    from drawTiles_cancelled [OF this, of imgs e cfg prm g b 0] ne dt show ?thesis
      by (simp add: imgs_def)
  next
    case False
    with c obtain j where "arrives e b j" "Suc j < length imgs" by (auto simp add: imgs_def)
    from drawTiles_throws [of 0 j imgs e b cfg prm g st2] this dt show ?thesis by simp
  qed
  have rg: "runGroup e cfg prm b st = (Some CancelledError, st3)"
    using dt x by (simp add: runGroup_def Let_def st2_def g_def imgs_def suspend_eq)
  from drawTiles_Some [OF dt [unfolded x]] drawTiles_frame [of e cfg prm g b 0 imgs st2] dt s2
  have "isCancelled st3 \<and> generatedBlobs st3 = generatedBlobs st
           \<and> previews st3 = previews st \<and> alerts st3 = alerts st
           \<and> width (canvas st3) = canvasDim 300 (pageW g)
           \<and> height (canvas st3) = canvasDim 150 (pageH g)"
    by simp
  with rg show ?thesis unfolding g_def by blast
qed

text \<open>The group a suspension belongs to.\<close>

lemma single_arrival_quiet:
  assumes one: "\<forall>q. cancel_during e q \<longleftrightarrow> q = p"
    and p: "p = GroupSleep b \<or> p = Decode b i \<or> p = TileSleep b i \<or> p = Encode b"
    and j: "j \<noteq> b"
  shows "quietGroup e j"
proof -
  have "\<not> cancel_during e (GroupSleep j)" "\<not> cancel_during e (Encode j)"
    "\<not> cancel_during e (Decode j k)" "\<not> cancel_during e (TileSleep j k)" for k
    using p j by (auto simp add: one)
  then show ?thesis by (simp add: quietGroup_def arrives_def)
qed

text \<open>
  One call of \<^verbatim>\<open>cancelProcess\<close> while group \<open>b\<close> is at its opening \<^verbatim>\<open>sleep\<close>, or at a
  tile that is not the last of the group: the run stops in that group, with the first
  \<open>b\<close> pages as its output and the canvas still at the size of the page.
\<close>

lemma cancelled_inside_group:
  assumes ne: "images st \<noteq> []" and enc: "\<forall>j. encode_ok e j"
    and one: "\<forall>q. cancel_during e q \<longleftrightarrow> q = p"
    and b: "int b < p_totalBatches (readParams cfg (length (images st)))"
    and p: "p = GroupSleep b
            \<or> (\<exists>i. (p = Decode b i \<or> p = TileSleep b i \<and> 0 < i \<and> i mod 10 = 0)
                    \<and> Suc i < length (batchImgs (readParams cfg (length (images st))) (images st) b))"
  shows "fst (generate e cfg st) = Cancelled"
    and "generatedBlobs (snd (generate e cfg st)) =
           map (\<lambda>j. Some (expectedBlob e cfg (readParams cfg (length (images st))) (images st) (overlayImg st) j)) [0..<b]"
    and "width (canvas (snd (generate e cfg st)))
           = canvasDim 300 (pageW (groupGeometry cfg (readParams cfg (length (images st))) (images st) b))"
    and "height (canvas (snd (generate e cfg st)))
           = canvasDim 150 (pageH (groupGeometry cfg (readParams cfg (length (images st))) (images st) b))"
    and "\<not> toastVisible (snd (generate e cfg st))"
    and "alerts (snd (generate e cfg st)) = alerts st"
proof -
  define prm where "prm = readParams cfg (length (images st))"
  define sb where "sb = fold (afterGroup e cfg prm) [0..<b] (startState st)"
  from p obtain i where p': "p = GroupSleep b \<or> p = Decode b i \<or> p = TileSleep b i \<or> p = Encode b"
    by blast
  have q: "\<forall>j. 0 \<le> j \<and> j < b \<longrightarrow> quietGroup e j \<and> encode_ok e j"
  proof (intro allI impI conjI)
    fix j assume "0 \<le> j \<and> j < b"
    then have "j \<noteq> b" by simp
    then show "quietGroup e j" by (rule single_arrival_quiet [OF one p'])
    show "encode_ok e j" using enc by simp
  qed
  have pre: "batchLoop e cfg prm 0 (startState st) = batchLoop e cfg prm b sb"
    unfolding sb_def using b
    by (intro batchLoop_prefix) (simp_all add: q prm_def)
  have nb: "\<not> isCancelled sb" and im: "images sb = images st"
    by (simp_all add: sb_def)
  have bne: "batchImgs prm (images sb) b \<noteq> []"
    unfolding im prm_def using b by (rule batch_nonempty)
  have c: "cancel_during e (GroupSleep b)
              \<or> (\<exists>j. arrives e b j \<and> Suc j < length (batchImgs prm (images sb) b))"
  proof (cases "p = GroupSleep b")
    case True
    then show ?thesis by (simp add: one)
  next
    case False
    then have "\<exists>i. (p = Decode b i \<or> p = TileSleep b i \<and> 0 < i \<and> i mod 10 = 0)
                 \<and> Suc i < length (batchImgs prm (images st) b)"
      using p unfolding prm_def by blast
    then obtain i where i: "(p = Decode b i \<or> p = TileSleep b i \<and> 0 < i \<and> i mod 10 = 0)
                 \<and> Suc i < length (batchImgs prm (images st) b)" ..
    then have "arrives e b i" by (auto simp add: arrives_def one)
    with i show ?thesis unfolding im by blast
  qed
  from runGroup_throws [OF c bne, of cfg] obtain st'
    where rg: "runGroup e cfg prm b sb = (Some CancelledError, st')"
      and st': "isCancelled st'" "generatedBlobs st' = generatedBlobs sb"
        "previews st' = previews sb" "alerts st' = alerts sb"
        "width (canvas st') = canvasDim 300 (pageW (groupGeometry cfg prm (images st) b))"
        "height (canvas st') = canvasDim 150 (pageH (groupGeometry cfg prm (images st) b))"
    unfolding im by blast
  have "batchLoop e cfg prm b sb = (Threw CancelledError, st')"
    using b nb rg by (subst batchLoop.simps) (simp add: prm_def)
  with pre have bl: "batchLoop e cfg prm 0 (startState st) = (Threw CancelledError, st')" by simp
  have gen: "generate e cfg st =
      (Cancelled, st'\<lparr>console := console st' @ [RunError CancelledError], toastVisible := False\<rparr>)"
    using ne bl st'(1) by (simp add: generate_def Let_def prm_def)
  show "fst (generate e cfg st) = Cancelled" by (simp add: gen)
  show "generatedBlobs (snd (generate e cfg st)) =
           map (\<lambda>j. Some (expectedBlob e cfg (readParams cfg (length (images st))) (images st) (overlayImg st) j)) [0..<b]"
    by (simp add: gen st' sb_def afterGroups_blobs prm_def)
  show "width (canvas (snd (generate e cfg st)))
           = canvasDim 300 (pageW (groupGeometry cfg (readParams cfg (length (images st))) (images st) b))"
    and "height (canvas (snd (generate e cfg st)))
           = canvasDim 150 (pageH (groupGeometry cfg (readParams cfg (length (images st))) (images st) b))"
    by (simp_all add: gen st' prm_def)
  show "\<not> toastVisible (snd (generate e cfg st))" by (simp add: gen)
  show "alerts (snd (generate e cfg st)) = alerts st" by (simp add: gen st' sb_def)
qed

text \<open>
  One call of \<^verbatim>\<open>cancelProcess\<close> while the page of group \<open>b\<close> is being encoded: the page
  is kept, and the loop stops at the head of the next group, if there is one.
\<close>

lemma cancelled_while_encoding:
  assumes ne: "images st \<noteq> []" and enc: "\<forall>j. encode_ok e j"
    and one: "\<forall>q. cancel_during e q \<longleftrightarrow> q = Encode b"
    and b: "int (Suc b) < p_totalBatches (readParams cfg (length (images st)))"
  shows "fst (generate e cfg st) = Cancelled"
    and "generatedBlobs (snd (generate e cfg st)) =
           map (\<lambda>j. Some (expectedBlob e cfg (readParams cfg (length (images st))) (images st) (overlayImg st) j)) [0..<Suc b]"
    and "canvas (snd (generate e cfg st)) = releasedSurface"
    and "\<not> toastVisible (snd (generate e cfg st))"
proof -
  define prm where "prm = readParams cfg (length (images st))"
  define sb where "sb = fold (afterGroup e cfg prm) [0..<b] (startState st)"
  have q: "\<forall>j. 0 \<le> j \<and> j < b \<longrightarrow> quietGroup e j \<and> encode_ok e j"
  proof (intro allI impI conjI)
    fix j assume "0 \<le> j \<and> j < b"
    then have "j \<noteq> b" by simp
    then show "quietGroup e j" using single_arrival_quiet [OF one, of b 0 j] by simp
    show "encode_ok e j" using enc by simp
  qed
  have pre: "batchLoop e cfg prm 0 (startState st) = batchLoop e cfg prm b sb"
    unfolding sb_def using b
    by (intro batchLoop_prefix) (simp_all add: q prm_def)
  have nb: "\<not> isCancelled sb" by (simp add: sb_def)
  have rg: "runGroup e cfg prm b sb = (None, (afterGroup e cfg prm b sb)\<lparr>isCancelled := True\<rparr>)"
    using runGroup_quiet [OF nb, of e b cfg prm] one enc by (simp add: arrives_def)
  have "batchLoop e cfg prm b sb
          = batchLoop e cfg prm (Suc b) ((afterGroup e cfg prm b sb)\<lparr>isCancelled := True\<rparr>)"
    using b nb rg by (subst batchLoop.simps) (simp add: prm_def)
  also have "\<dots> = (Broke, (afterGroup e cfg prm b sb)\<lparr>isCancelled := True\<rparr>)"
    using b by (intro batchLoop_break) (simp_all add: prm_def)
  finally have bl: "batchLoop e cfg prm 0 (startState st)
      = (Broke, (afterGroup e cfg prm b sb)\<lparr>isCancelled := True\<rparr>)"
    using pre by simp
  have gen: "generate e cfg st =
      (Cancelled, (afterGroup e cfg prm b sb)\<lparr>isCancelled := True, resultHidden := False, toastVisible := False\<rparr>)"
    using ne bl by (simp add: generate_def Let_def prm_def)
  show "fst (generate e cfg st) = Cancelled" by (simp add: gen)
  show "generatedBlobs (snd (generate e cfg st)) =
           map (\<lambda>j. Some (expectedBlob e cfg (readParams cfg (length (images st))) (images st) (overlayImg st) j)) [0..<Suc b]"
    by (simp add: gen afterGroup_def sb_def afterGroups_blobs prm_def)
  show "canvas (snd (generate e cfg st)) = releasedSurface" by (simp add: gen)
  show "\<not> toastVisible (snd (generate e cfg st))" by (simp add: gen)
qed

subsection \<open>Cancellation between and inside groups (C2)\<close>

text \<open>
  C2, as amended. \<^verbatim>\<open>cancelProcess\<close> is called once, while the run is suspended at \<open>p\<close>,
  and group \<open>b\<close> exists. If \<open>p\<close> is the encoding of page \<open>b\<close> and a further group
  follows, or the \<^verbatim>\<open>sleep\<close> that opens group \<open>b\<close>, the run ends as cancelled with
  exactly the pages of the groups completed before (\<open>b + 1\<close> pages in the first case,
  \<open>b\<close> pages in the second) and no page for the next group. If \<open>p\<close> is the decode
  of a tile of group \<open>b\<close>, or the \<^verbatim>\<open>sleep\<close> before it, and that tile is not the last
  of the group, group \<open>b\<close> is abandoned without a page and the \<open>b\<close> earlier pages
  are kept.
\<close>

theorem cancellation:
  assumes ne: "images st \<noteq> []" and enc: "\<forall>j. encode_ok e j"
    and one: "\<forall>q. cancel_during e q \<longleftrightarrow> q = p"
    and b: "int b < p_totalBatches (readParams cfg (length (images st)))"
  shows "(p = Encode b \<and> int (Suc b) < p_totalBatches (readParams cfg (length (images st))) \<longrightarrow>
            fst (generate e cfg st) = Cancelled
            \<and> generatedBlobs (snd (generate e cfg st)) =
                map (\<lambda>j. Some (expectedBlob e cfg (readParams cfg (length (images st)))
                                 (images st) (overlayImg st) j)) [0..<Suc b])
       \<and> (p = GroupSleep b
            \<or> (\<exists>i. (p = Decode b i \<or> p = TileSleep b i \<and> 0 < i \<and> i mod 10 = 0)
                    \<and> Suc i < length (batchImgs (readParams cfg (length (images st))) (images st) b)) \<longrightarrow>
            fst (generate e cfg st) = Cancelled
            \<and> generatedBlobs (snd (generate e cfg st)) =
                map (\<lambda>j. Some (expectedBlob e cfg (readParams cfg (length (images st)))
                                 (images st) (overlayImg st) j)) [0..<b])"
proof (intro conjI impI)
  assume a: "p = Encode b \<and> int (Suc b) < p_totalBatches (readParams cfg (length (images st)))"
  then have one': "\<forall>q. cancel_during e q \<longleftrightarrow> q = Encode b" using one by simp
  from a show "fst (generate e cfg st) = Cancelled"
    by (intro cancelled_while_encoding(1) [OF ne enc one']) simp
  from a show "generatedBlobs (snd (generate e cfg st)) =
                map (\<lambda>j. Some (expectedBlob e cfg (readParams cfg (length (images st)))
                                 (images st) (overlayImg st) j)) [0..<Suc b]"
    by (intro cancelled_while_encoding(2) [OF ne enc one']) simp
next
  assume a: "p = GroupSleep b
            \<or> (\<exists>i. (p = Decode b i \<or> p = TileSleep b i \<and> 0 < i \<and> i mod 10 = 0)
                    \<and> Suc i < length (batchImgs (readParams cfg (length (images st))) (images st) b))"
  show "fst (generate e cfg st) = Cancelled"
    by (rule cancelled_inside_group(1) [OF ne enc one b a])
  show "generatedBlobs (snd (generate e cfg st)) =
                map (\<lambda>j. Some (expectedBlob e cfg (readParams cfg (length (images st)))
                                 (images st) (overlayImg st) j)) [0..<b]"
    by (rule cancelled_inside_group(2) [OF ne enc one b a])
qed

lemma cancelAt_sel [simp]:
  "cancel_during (cancelAt p) q \<longleftrightarrow> q = p"
  "decode_result (cancelAt p) b i = Some (800, 600)"
  "encode_ok (cancelAt p) j"
  by (simp_all add: cancelAt_def)

lemma four_photos_two_columns:
  "images (idleState (map photo [0..<4])) \<noteq> []"
  "p_totalBatches (readParams (gridConfig 2 1) (length (images (idleState (map photo [0..<4]))))) = 2"
  "length (batchImgs (readParams (gridConfig 2 1) (length (images (idleState (map photo [0..<4])))))
     (images (idleState (map photo [0..<4]))) 1) = 2"
proof -
  show "images (idleState (map photo [0..<4])) \<noteq> []" by (simp add: idleState_def)
  have n: "length (images (idleState (map photo [0..<4]))) = 4" by (simp add: idleState_def)
  show "p_totalBatches (readParams (gridConfig 2 1) (length (images (idleState (map photo [0..<4]))))) = 2"
    unfolding n by (simp add: gridConfig_def js_or_def)
  have bs: "p_batchSize (readParams (gridConfig 2 1) 4) = 2" by (simp add: gridConfig_def js_or_def)
  then have pos: "0 < p_batchSize (readParams (gridConfig 2 1) 4)" by simp
  show "length (batchImgs (readParams (gridConfig 2 1) (length (images (idleState (map photo [0..<4])))))
     (images (idleState (map photo [0..<4]))) 1) = 2"
    unfolding n batchImgs_pos [OF pos] bs by (simp add: idleState_def)
qed

theorem cancellation_witness:
  "fst (generate (cancelAt (Encode 0)) (gridConfig 2 1) (idleState (map photo [0..<4]))) = Cancelled
   \<and> length (generatedBlobs (snd (generate (cancelAt (Encode 0)) (gridConfig 2 1) (idleState (map photo [0..<4]))))) = 1
   \<and> fst (generate (cancelAt (GroupSleep 1)) (gridConfig 2 1) (idleState (map photo [0..<4]))) = Cancelled
   \<and> length (generatedBlobs (snd (generate (cancelAt (GroupSleep 1)) (gridConfig 2 1) (idleState (map photo [0..<4]))))) = 1
   \<and> fst (generate (cancelAt (Decode 1 0)) (gridConfig 2 1) (idleState (map photo [0..<4]))) = Cancelled
   \<and> length (generatedBlobs (snd (generate (cancelAt (Decode 1 0)) (gridConfig 2 1) (idleState (map photo [0..<4]))))) = 1"
proof -
  note f = four_photos_two_columns
  have enc: "\<forall>j. encode_ok (cancelAt p) j" and one: "\<forall>q. cancel_during (cancelAt p) q \<longleftrightarrow> q = p" for p
    by simp_all
  have b0: "int 0 < p_totalBatches (readParams (gridConfig 2 1) (length (images (idleState (map photo [0..<4])))))"
    and b1: "int 1 < p_totalBatches (readParams (gridConfig 2 1) (length (images (idleState (map photo [0..<4])))))"
    and s0: "int (Suc 0) < p_totalBatches (readParams (gridConfig 2 1) (length (images (idleState (map photo [0..<4])))))"
    unfolding f(2) by simp_all
  have l1: "Suc 0 < length (batchImgs (readParams (gridConfig 2 1) (length (images (idleState (map photo [0..<4])))))
     (images (idleState (map photo [0..<4]))) 1)"
    unfolding f(3) by simp
  from cancellation [OF f(1) enc one b0, of "Encode 0"] s0
  have "fst (generate (cancelAt (Encode 0)) (gridConfig 2 1) (idleState (map photo [0..<4]))) = Cancelled
   \<and> length (generatedBlobs (snd (generate (cancelAt (Encode 0)) (gridConfig 2 1) (idleState (map photo [0..<4]))))) = 1"
    by (simp del: readParams_sel)
  moreover
  from cancellation [OF f(1) enc one b1, of "GroupSleep 1"]
  have "fst (generate (cancelAt (GroupSleep 1)) (gridConfig 2 1) (idleState (map photo [0..<4]))) = Cancelled
   \<and> length (generatedBlobs (snd (generate (cancelAt (GroupSleep 1)) (gridConfig 2 1) (idleState (map photo [0..<4]))))) = 1"
    by (simp del: readParams_sel)
  moreover
  from cancellation [OF f(1) enc one b1, of "Decode 1 0"] l1
  have "fst (generate (cancelAt (Decode 1 0)) (gridConfig 2 1) (idleState (map photo [0..<4]))) = Cancelled
   \<and> length (generatedBlobs (snd (generate (cancelAt (Decode 1 0)) (gridConfig 2 1) (idleState (map photo [0..<4]))))) = 1"
    by (simp del: readParams_sel)
  ultimately show ?thesis by simp
qed

theorem cancellation_last_tile_counterexample:
  "fst (generate (cancelAt (Decode 0 1)) (gridConfig 2 1) (idleState [photo 0, photo 1])) = Completed
   \<and> isCancelled (snd (generate (cancelAt (Decode 0 1)) (gridConfig 2 1) (idleState [photo 0, photo 1])))
   \<and> map (map_option (\<lambda>bl. map t_src (tiles (b_page bl))))
        (generatedBlobs (snd (generate (cancelAt (Decode 0 1)) (gridConfig 2 1) (idleState [photo 0, photo 1]))))
      = [Some [photo 0, photo 1]]"
  by (simp add: generate_def startState_def readParams_def gridConfig_def js_or_def idleState_def
      batchLoop.simps runGroup_def suspend_eq batchImgs_def js_slice_def groupGeometry_def
      drawTile_eq arrives_def finishGroup_def makeBlob_def allocSurface_def renderTile_def Let_def)

subsection \<open>Numbering (C3) and the canvas after an exception (C9)\<close>

lemmas run_simps =
  generate_def startState_def readParams_def gridConfig_def js_or_def idleState_def
  batchLoop.simps runGroup_def suspend_eq batchImgs_def js_slice_def groupGeometry_def
  drawTile_eq arrives_def finishGroup_def makeBlob_def allocSurface_def renderTile_def
  computeGeometry_def getAspectRatio_def MAX_CANVAS_DIM_def drawNumber_def Let_def
  round_double_one js_div_1500_1 canvasDim_def

text \<open>
  With numbering enabled and a start number \<open>N\<close> other than 0, tile \<open>i\<close> of group
  \<open>b\<close> is labelled \<open>N + (b * batchSize + i)\<close> in every run that completes.
\<close>

lemma labels_from_start:
  assumes ne: "images st \<noteq> []"
    and nocancel: "\<forall>p. \<not> cancel_during e p" and enc: "\<forall>j. encode_ok e j"
    and num: "showNum cfg" "startNumber_input cfg = Some N" "N \<noteq> 0"
    and b: "b < length (generatedBlobs (snd (generate e cfg st)))"
  shows "\<exists>bl. generatedBlobs (snd (generate e cfg st)) ! b = Some bl
           \<and> (\<forall>i < length (tiles (b_page bl)).
                 t_label (tiles (b_page bl) ! i)
                   = Some (N + (int b * p_batchSize (readParams cfg (length (images st))) + int i)))"
proof -
  define prm where "prm = readParams cfg (length (images st))"
  define bl where "bl = expectedBlob e cfg prm (images st) (overlayImg st) b"
  have q: "\<forall>j. quietGroup e j \<and> encode_ok e j"
    using nocancel enc by (simp add: quiet_all)
  note blobs = generate_quiet_blobs [OF ne q, of cfg, folded prm_def]
  from b have nth: "generatedBlobs (snd (generate e cfg st)) ! b = Some bl"
    unfolding blobs bl_def by simp
  have "t_label (tiles (b_page bl) ! i) = Some (N + (int b * p_batchSize prm + int i))"
    if "i < length (tiles (b_page bl))" for i
    using that num
    by (simp add: bl_def expectedBlob_tiles expectedTiles_nth renderTile_def drawNumber_def
        js_or_def Let_def)
  with nth show ?thesis unfolding prm_def by blast
qed

text \<open>
  C3. With numbering enabled, the label of the \<open>k\<close>-th tile overall is \<open>N + k\<close> for
  the start number the code works with, which \<^verbatim>\<open>drawNumber\<close> reads as
  \<^verbatim>\<open>parseInt(...) || 1\<close>. With the start number field set to 0 the three tiles of this
  run are therefore labelled 1, 2, 3 and not 0, 1, 2.
\<close>

theorem numbering_start_zero:
  "startNumber_input zeroStartConfig = Some 0 \<and> showNum zeroStartConfig
   \<and> map (map_option (\<lambda>bl. map t_label (tiles (b_page bl))))
        (generatedBlobs (snd (generate quietEnv zeroStartConfig (idleState [photo 0, photo 1, photo 2]))))
      = [Some [Some 1, Some 2, Some 3]]"
  by (simp add: run_simps zeroStartConfig_def quietEnv_def)

text \<open>
  C9. A run that ends by an exception clears the progress toast but does not release the
  canvas: cancelled inside a group, or failed at the encoding, it leaves the canvas at the
  dimensions of the page (3000 by 1500 here) and not at 1 by 1.
\<close>

theorem surface_kept_after_exception:
  "fst (generate (cancelAt (Decode 0 0)) (gridConfig 2 1) (idleState [photo 0, photo 1])) = Cancelled
   \<and> \<not> toastVisible (snd (generate (cancelAt (Decode 0 0)) (gridConfig 2 1) (idleState [photo 0, photo 1])))
   \<and> width (canvas (snd (generate (cancelAt (Decode 0 0)) (gridConfig 2 1) (idleState [photo 0, photo 1])))) = 3000
   \<and> height (canvas (snd (generate (cancelAt (Decode 0 0)) (gridConfig 2 1) (idleState [photo 0, photo 1])))) = 1500
   \<and> fst (generate brokenEncoder (gridConfig 2 1) (idleState [photo 0, photo 1])) = Failed
   \<and> \<not> toastVisible (snd (generate brokenEncoder (gridConfig 2 1) (idleState [photo 0, photo 1])))
   \<and> width (canvas (snd (generate brokenEncoder (gridConfig 2 1) (idleState [photo 0, photo 1])))) = 3000
   \<and> height (canvas (snd (generate brokenEncoder (gridConfig 2 1) (idleState [photo 0, photo 1])))) = 1500"
  by (simp add: run_simps brokenEncoder_def)

subsection \<open>Requests that are turned down (C8)\<close>

lemma renderTile_cfg:
  assumes "showNum cfg' = showNum cfg" "startNumber_input cfg' = startNumber_input cfg"
  shows "renderTile e cfg' prm g b i x = renderTile e cfg prm g b i x"
  using assms by (simp add: renderTile_def drawNumber_def Let_def)

lemma drawTiles_cfg:
  assumes "showNum cfg' = showNum cfg" "startNumber_input cfg' = startNumber_input cfg"
  shows "drawTiles e cfg' prm g b i imgs st = drawTiles e cfg prm g b i imgs st"
  by (induction imgs arbitrary: i st) (simp_all add: drawTile_eq renderTile_cfg [OF assms])

lemma runGroup_cfg:
  assumes "aspectRatio cfg' = aspectRatio cfg"
    and "showNum cfg' = showNum cfg" "startNumber_input cfg' = startNumber_input cfg"
  shows "runGroup e cfg' prm b st = runGroup e cfg prm b st"
  using assms(1)
  by (simp add: runGroup_def groupGeometry_def getAspectRatio_def drawTiles_cfg [OF assms(2,3)])

lemma batchLoop_cfg:
  "aspectRatio cfg' = aspectRatio cfg \<Longrightarrow> showNum cfg' = showNum cfg \<Longrightarrow>
   startNumber_input cfg' = startNumber_input cfg \<Longrightarrow>
   batchLoop e cfg' prm b st = batchLoop e cfg prm b st"
proof (induction e cfg prm b st rule: batchLoop.induct)
  case (1 e cfg prm b st)
  note same = runGroup_cfg [OF "1.prems", of e prm b st]
  show ?case
  proof (cases "int b < p_totalBatches prm \<and> \<not> isCancelled st")
    case False
    then show ?thesis
      by (subst batchLoop.simps, subst (2) batchLoop.simps) auto
  next
    case True
    obtain r st1 where rg: "runGroup e cfg prm b st = (r, st1)"
      by (cases "runGroup e cfg prm b st")
    show ?thesis
    proof (cases r)
      case (Some y)
      with True rg same show ?thesis
        by (subst batchLoop.simps, subst (2) batchLoop.simps) simp
    next
      case None
      from True None rg have "(None, st1) = runGroup e cfg prm b st" by simp
      from "1.IH" [OF _ _ this refl "1.prems"] True
      have "batchLoop e cfg' prm (Suc b) st1 = batchLoop e cfg prm (Suc b) st1" by simp
      with True rg None same show ?thesis
        by (subst batchLoop.simps, subst (2) batchLoop.simps) simp
    qed
  qed
qed

lemma js_or_idem: "d \<noteq> 0 \<Longrightarrow> js_or (Some (js_or v d)) d = js_or v d"
  by (simp add: js_or_def split: option.splits)

lemma generate_default_cols:
  assumes "cols_input cfg = None \<or> cols_input cfg = Some 0"
  shows "generate e cfg st = generate e (cfg\<lparr>cols_input := Some 3\<rparr>) st"
proof -
  have rp: "readParams (cfg\<lparr>cols_input := Some 3\<rparr>) n = readParams cfg n" for n
    using assms by (auto simp add: readParams_def js_or_def)
  have bl: "batchLoop e (cfg\<lparr>cols_input := Some 3\<rparr>) prm b s = batchLoop e cfg prm b s" for prm b s
    by (rule batchLoop_cfg) simp_all
  show ?thesis by (simp add: generate_def rp bl)
qed

lemma generate_default_rows:
  assumes "rows_input cfg = None \<or> rows_input cfg = Some 0"
  shows "generate e cfg st = generate e (cfg\<lparr>rows_input := Some 3\<rparr>) st"
proof -
  have rp: "readParams (cfg\<lparr>rows_input := Some 3\<rparr>) n = readParams cfg n" for n
    using assms by (auto simp add: readParams_def js_or_def)
  have bl: "batchLoop e (cfg\<lparr>rows_input := Some 3\<rparr>) prm b s = batchLoop e cfg prm b s" for prm b s
    by (rule batchLoop_cfg) simp_all
  show ?thesis by (simp add: generate_def rp bl)
qed

text \<open>
  C8, as amended. A request with an empty image sequence is turned down before the run
  starts: nothing is rendered, no artifact is produced and the earlier output is left as
  it was (the state changes by the alert only). A columns or rows value that is zero or
  does not parse is not turned down: \<^verbatim>\<open>generate\<close> runs as with the value 3.
\<close>

theorem invalid_configuration:
  "(images st = [] \<longrightarrow>
      generate e cfg st = (Rejected, st\<lparr>alerts := alerts st @ [AlertNoImages]\<rparr>))
   \<and> (cols_input cfg = None \<or> cols_input cfg = Some 0 \<longrightarrow>
        generate e cfg st = generate e (cfg\<lparr>cols_input := Some 3\<rparr>) st)
   \<and> (rows_input cfg = None \<or> rows_input cfg = Some 0 \<longrightarrow>
        generate e cfg st = generate e (cfg\<lparr>rows_input := Some 3\<rparr>) st)"
  using generate_default_cols [of cfg e st] generate_default_rows [of cfg e st]
  by (simp add: generate_def)

theorem invalid_configuration_witness:
  "generate quietEnv (gridConfig 2 2) (idleState [])
     = (Rejected, (idleState [])\<lparr>alerts := [AlertNoImages]\<rparr>)
   \<and> generate quietEnv (gridConfig 0 2) (idleState [photo 0])
     = generate quietEnv (gridConfig 3 2) (idleState [photo 0])
   \<and> generate quietEnv (gridConfig 2 0) (idleState [photo 0])
     = generate quietEnv (gridConfig 2 3) (idleState [photo 0])"
proof -
  have "generate quietEnv (gridConfig 2 2) (idleState [])
     = (Rejected, (idleState [])\<lparr>alerts := [AlertNoImages]\<rparr>)"
    using invalid_configuration [of "idleState []" quietEnv "gridConfig 2 2"]
    by (simp add: idleState_def)
  moreover have "generate quietEnv (gridConfig 0 2) (idleState [photo 0])
     = generate quietEnv (gridConfig 3 2) (idleState [photo 0])"
    using invalid_configuration [of "idleState [photo 0]" quietEnv "gridConfig 0 2"]
    by (simp add: gridConfig_def)
  moreover have "generate quietEnv (gridConfig 2 0) (idleState [photo 0])
     = generate quietEnv (gridConfig 2 3) (idleState [photo 0])"
    using invalid_configuration [of "idleState [photo 0]" quietEnv "gridConfig 2 0"]
    by (simp add: gridConfig_def)
  ultimately show ?thesis by simp
qed

theorem zero_columns_counterexample:
  "cols_input (gridConfig 0 2) = Some 0
   \<and> fst (generate quietEnv (gridConfig 0 2) (idleState [photo 0])) = Completed
   \<and> length (generatedBlobs (snd (generate quietEnv (gridConfig 0 2) (idleState [photo 0])))) = 1"
  by (simp add: run_simps quietEnv_def)

subsection \<open>removeDuplicates (C10)\<close>

lemma find_other_name:
  "img_name y \<noteq> nm \<Longrightarrow> find (\<lambda>x. img_name x = nm) (y # ys) = find (\<lambda>x. img_name x = nm) ys"
  by simp

lemma dedupScan_deleted:
  "distinct (map img_id imgs) \<Longrightarrow>
   set (snd (dedupScan imgs seen keepIds deleteIds)) =
     set deleteIds \<union>
     img_id ` {x \<in> set imgs. img_name x \<in> seen \<or> firstWithName imgs (img_name x) \<noteq> Some x}"
proof (induction imgs arbitrary: seen keepIds deleteIds)
  case Nil
  then show ?case by simp
next
  case (Cons y ys)
  from Cons.prems have dys: "distinct (map img_id ys)" and ynot: "y \<notin> set ys" by auto
  show ?case
  proof (cases "img_name y \<in> seen")
    case True
    have "{x \<in> set (y # ys). img_name x \<in> seen \<or> firstWithName (y # ys) (img_name x) \<noteq> Some x}
        = insert y {x \<in> set ys. img_name x \<in> seen \<or> firstWithName ys (img_name x) \<noteq> Some x}"
      using True by (auto simp add: firstWithName_def)
    with True Cons.IH [OF dys, of seen keepIds "deleteIds @ [img_id y]"] show ?thesis
      by simp
  next
    case False
    have "{x \<in> set (y # ys). img_name x \<in> seen \<or> firstWithName (y # ys) (img_name x) \<noteq> Some x}
        = {x \<in> set ys. img_name x \<in> insert (img_name y) seen \<or> firstWithName ys (img_name x) \<noteq> Some x}"
      using False ynot by (auto simp add: firstWithName_def)
    with False Cons.IH [OF dys, of "insert (img_name y) seen" "keepIds @ [img_id y]" deleteIds]
    show ?thesis by simp
  qed
qed

lemma fold_DB_delete:
  "fold DB_delete ks db = filter (\<lambda>r. rec_id r \<notin> set ks) db"
proof (induction ks arbitrary: db)
  case Nil
  show ?case by simp
next
  case (Cons k ks)
  show ?case
    by (simp add: Cons.IH) (auto simp add: DB_delete_def intro: filter_cong)
qed

lemma refresh_filter:
  "refreshImagesFromDB (filter (\<lambda>r. rec_id r \<notin> K) db)
     = filter (\<lambda>x. img_id x \<notin> K) (refreshImagesFromDB db)"
  by (simp add: refreshImagesFromDB_def DB_getAll_def filter_map comp_def)

lemma removeDuplicates_images:
  assumes d: "distinct (map img_id imgs)" and s: "set imgs = set (refreshImagesFromDB db)"
  shows "snd (removeDuplicates db imgs)
           = filter (\<lambda>x. firstWithName imgs (img_name x) = Some x) (refreshImagesFromDB db)"
proof -
  define K where "K = set (snd (dedupScan imgs {} [] []))"
  have K: "K = img_id ` {x \<in> set imgs. firstWithName imgs (img_name x) \<noteq> Some x}"
    unfolding K_def using dedupScan_deleted [OF d, of "{}" "[]" "[]"] by simp
  have inj: "inj_on img_id (set imgs)"
    using d by (simp add: distinct_map)
  have rd: "snd (removeDuplicates db imgs) = filter (\<lambda>x. img_id x \<notin> K) (refreshImagesFromDB db)"
    by (simp add: removeDuplicates_def K_def fold_DB_delete refresh_filter split: prod.splits)
  have "filter (\<lambda>x. img_id x \<notin> K) (refreshImagesFromDB db)
      = filter (\<lambda>x. firstWithName imgs (img_name x) = Some x) (refreshImagesFromDB db)"
  proof (rule filter_cong [OF refl])
    fix x assume "x \<in> set (refreshImagesFromDB db)"
    then have x: "x \<in> set imgs" by (simp add: s)
    show "(img_id x \<notin> K) = (firstWithName imgs (img_name x) = Some x)"
      unfolding K using x inj by (auto dest: inj_onD)
  qed
  with rd show ?thesis by simp
qed

lemma first_of_distinct_names:
  "distinct (map img_name imgs) \<Longrightarrow> x \<in> set imgs \<Longrightarrow> firstWithName imgs (img_name x) = Some x"
  unfolding firstWithName_def
  by (induction imgs) auto

text \<open>
  C10, as amended. \<^verbatim>\<open>removeDuplicates\<close> deletes from the store every image that is
  not the first of its display name in the current sequence, and then rebuilds the
  sequence from the store: the kept images come back in the order of the store
  (ascending \<^verbatim>\<open>id\<close>). So when the current sequence is in the order of the store, the
  kept images keep their relative order, and a sequence with pairwise distinct names is
  left unchanged.
\<close>

theorem remove_duplicates:
  assumes "distinct (map img_id imgs)" and "set imgs = set (refreshImagesFromDB db)"
  shows "snd (removeDuplicates db imgs)
           = filter (\<lambda>x. firstWithName imgs (img_name x) = Some x) (refreshImagesFromDB db)
       \<and> (imgs = refreshImagesFromDB db \<longrightarrow>
            snd (removeDuplicates db imgs)
              = filter (\<lambda>x. firstWithName imgs (img_name x) = Some x) imgs
            \<and> (distinct (map img_name imgs) \<longrightarrow> snd (removeDuplicates db imgs) = imgs))"
proof -
  note r = removeDuplicates_images [OF assms]
  have "filter (\<lambda>x. firstWithName imgs (img_name x) = Some x) imgs = imgs"
    if "distinct (map img_name imgs)"
    using first_of_distinct_names [OF that] by (simp add: filter_id_conv)
  with r show ?thesis by auto
qed

theorem remove_duplicates_witness:
  "distinct (map img_id (refreshImagesFromDB repeatedRecords))
   \<and> snd (removeDuplicates repeatedRecords (refreshImagesFromDB repeatedRecords))
       = [\<lparr>img_id = 1, img_name = ''a.jpg'', img_url = 11\<rparr>,
          \<lparr>img_id = 2, img_name = ''b.jpg'', img_url = 12\<rparr>]
   \<and> snd (removeDuplicates twoRecords (refreshImagesFromDB twoRecords))
       = refreshImagesFromDB twoRecords"
proof -
  have d3: "distinct (map img_id (refreshImagesFromDB repeatedRecords))"
    and d2: "distinct (map img_id (refreshImagesFromDB twoRecords))"
    and n2: "distinct (map img_name (refreshImagesFromDB twoRecords))"
    by (simp_all add: refreshImagesFromDB_def DB_getAll_def repeatedRecords_def twoRecords_def)
  from remove_duplicates [OF d3 refl]
  have "snd (removeDuplicates repeatedRecords (refreshImagesFromDB repeatedRecords))
       = [\<lparr>img_id = 1, img_name = ''a.jpg'', img_url = 11\<rparr>,
          \<lparr>img_id = 2, img_name = ''b.jpg'', img_url = 12\<rparr>]"
    by (simp add: refreshImagesFromDB_def DB_getAll_def repeatedRecords_def firstWithName_def)
  moreover from remove_duplicates [OF d2 refl] n2
  have "snd (removeDuplicates twoRecords (refreshImagesFromDB twoRecords))
       = refreshImagesFromDB twoRecords"
    by blast
  ultimately show ?thesis using d3 by simp
qed

theorem reordered_sequence_counterexample:
  "onEnd 0 1 (refreshImagesFromDB twoRecords)
     = Some [\<lparr>img_id = 2, img_name = ''b.jpg'', img_url = 12\<rparr>,
             \<lparr>img_id = 1, img_name = ''a.jpg'', img_url = 11\<rparr>]
   \<and> distinct (map img_name [\<lparr>img_id = 2, img_name = ''b.jpg'', img_url = 12\<rparr>,
                               \<lparr>img_id = 1, img_name = ''a.jpg'', img_url = 11\<rparr>])
   \<and> snd (removeDuplicates twoRecords
             [\<lparr>img_id = 2, img_name = ''b.jpg'', img_url = 12\<rparr>,
              \<lparr>img_id = 1, img_name = ''a.jpg'', img_url = 11\<rparr>])
       = [\<lparr>img_id = 1, img_name = ''a.jpg'', img_url = 11\<rparr>,
          \<lparr>img_id = 2, img_name = ''b.jpg'', img_url = 12\<rparr>]
   \<and> snd (removeDuplicates twoRecords
             [\<lparr>img_id = 2, img_name = ''b.jpg'', img_url = 12\<rparr>,
              \<lparr>img_id = 1, img_name = ''a.jpg'', img_url = 11\<rparr>])
       \<noteq> [\<lparr>img_id = 2, img_name = ''b.jpg'', img_url = 12\<rparr>,
           \<lparr>img_id = 1, img_name = ''a.jpg'', img_url = 11\<rparr>]"
  by (simp add: onEnd_def removeDuplicates_def refreshImagesFromDB_def DB_getAll_def
      DB_delete_def twoRecords_def)

end
